theory Spec2Isabelle
  imports Complex_Main
begin

section \<open>Python dictionaries\<close>

text \<open>
  A Python \<open>dict\<close> keeps its keys in insertion order and holds every key once. It is
  modelled as an association list: \<open>dict_set\<close> is the item assignment \<open>d[k] = v\<close>
  (an existing key keeps its position, a new key goes to the end), \<open>dict_get\<close> is
  \<open>d.get(k, dflt)\<close> and \<open>dict_keys\<close> is the iteration order of \<open>for k in d\<close>.
\<close>

fun dict_set :: "('k \<times> 'v) list \<Rightarrow> 'k \<Rightarrow> 'v \<Rightarrow> ('k \<times> 'v) list" where
  "dict_set [] k v = [(k, v)]"
| "dict_set ((k', v') # d) k v =
     (if k' = k then (k', v) # d else (k', v') # dict_set d k v)"

definition dict_get :: "('k \<times> 'v) list \<Rightarrow> 'k \<Rightarrow> 'v \<Rightarrow> 'v" where
  "dict_get d k dflt = (case map_of d k of None \<Rightarrow> dflt | Some v \<Rightarrow> v)"

definition dict_keys :: "('k \<times> 'v) list \<Rightarrow> 'k list" where
  "dict_keys d = map fst d"

lemma dict_get_set_same: "dict_get (dict_set d k v) k dflt = v"
  by (induction d) (auto simp: dict_get_def)

lemma dict_get_set_other: "k' \<noteq> k \<Longrightarrow> dict_get (dict_set d k v) k' dflt = dict_get d k' dflt"
  by (induction d) (auto simp: dict_get_def)

section \<open>multi_file_analyzer.py: topological_sort\<close>

text \<open>
  The dependency graph is a \<open>Dict[str, List[str]]\<close>: \<open>graph[u]\<close> lists the files that
  \<open>u\<close> imports. \<open>in_degree\<close> is a \<open>defaultdict(int)\<close>, so a missing key reads as 0.
\<close>

text \<open>
  \<^verbatim>\<open>for node in graph:
    for neighbor in graph[node]:
        in_degree[neighbor] = in_degree.get(neighbor, 0) + 1\<close>
\<close>

definition count_incoming ::
  "('a \<times> 'a list) list \<Rightarrow> ('a \<times> int) list \<Rightarrow> ('a \<times> int) list" where
  "count_incoming graph d0 =
     fold (\<lambda>node d. fold (\<lambda>neighbor d'. dict_set d' neighbor (dict_get d' neighbor 0 + 1))
                          (dict_get graph node []) d)
          (dict_keys graph) d0"

text \<open>
  One pass of the inner loop of the queue loop:
  \<^verbatim>\<open>in_degree[neighbor] -= 1
if in_degree[neighbor] == 0:
    queue.append(neighbor)\<close>
\<close>

definition relax :: "'a \<Rightarrow> ('a \<times> int) list \<times> 'a list \<Rightarrow> ('a \<times> int) list \<times> 'a list" where
  "relax neighbor s =
     (case s of (in_degree, queue) \<Rightarrow>
        let in_degree' = dict_set in_degree neighbor (dict_get in_degree neighbor 0 - 1)
        in if dict_get in_degree' neighbor 0 = 0 then (in_degree', queue @ [neighbor])
           else (in_degree', queue))"

text \<open>
  The queue loop terminates: the length of the queue plus the sum of the positive
  in-degrees drops with every node taken from the queue.
\<close>

definition indeg_weight :: "('a \<times> int) list \<Rightarrow> nat" where
  "indeg_weight d = sum_list (map (\<lambda>kv. nat (snd kv)) d)"

lemma weight_dict_set:
  "indeg_weight (dict_set d k v) + nat (dict_get d k 0) = indeg_weight d + nat v"
  by (induction d) (auto simp: indeg_weight_def dict_get_def)

lemma relax_measure:
  "relax n (d, q) = (d', q') \<Longrightarrow> length q' + indeg_weight d' \<le> length q + indeg_weight d"
  using weight_dict_set[of d n "dict_get d n 0 - 1"]
  by (auto simp: relax_def Let_def dict_get_set_same split: if_splits)

lemma fold_relax_measure:
  "fold relax ns (d, q) = (d', q') \<Longrightarrow> length q' + indeg_weight d' \<le> length q + indeg_weight d"
proof (induction ns arbitrary: d q)
  case Nil
  then show ?case by simp
next
  case (Cons n ns)
  obtain d1 q1 where r: "relax n (d, q) = (d1, q1)" by (cases "relax n (d, q)")
  from Cons.prems r have "fold relax ns (d1, q1) = (d', q')" by simp
  from Cons.IH[OF this] relax_measure[OF r] show ?case by linarith
qed

text \<open>
  \<^verbatim>\<open>while queue:
    node = queue.pop(0)
    result.append(node)
    for neighbor in graph.get(node, []):
        ...\<close>
\<close>

function kahn_loop ::
  "('a \<times> 'a list) list \<Rightarrow> ('a \<times> int) list \<Rightarrow> 'a list \<Rightarrow> 'a list \<Rightarrow> 'a list" where
  "kahn_loop graph in_degree [] result = result"
| "kahn_loop graph in_degree (node # queue) result =
     (case fold relax (dict_get graph node []) (in_degree, queue) of
        (in_degree', queue') \<Rightarrow> kahn_loop graph in_degree' queue' (result @ [node]))"
  by pat_completeness auto
termination
proof (relation "measure (\<lambda>(graph, d, q, res). length q + indeg_weight d)", goal_cases)
  case 1
  show ?case by simp
next
  case (2 graph in_degree node queue result in_degree' queue')
  from 2 have "fold relax (dict_get graph node []) (in_degree, queue) = (in_degree', queue')"
    by simp
  from fold_relax_measure[OF this] show ?case by simp
qed

definition topological_sort :: "('a \<times> 'a list) list \<Rightarrow> 'a list" where
  "topological_sort graph =
     (let in_degree0 = fold (\<lambda>node d. dict_set d node 0) (dict_keys graph) [];
          in_degree = count_incoming graph in_degree0;
          queue = filter (\<lambda>node. dict_get in_degree node 0 = 0) (dict_keys graph);
          result = kahn_loop graph in_degree queue []
      in fold (\<lambda>node res. if node \<notin> set res then res @ [node] else res)
           (dict_keys graph) result)"

section \<open>incremental_analyzer.py: compute_changeset\<close>

text \<open>
  \<open>str.split('\n')\<close>: the text between the newline characters; the empty string gives
  one empty line, a text that ends with a newline gives a last empty line.
\<close>

fun split_nl :: "string \<Rightarrow> string list" where
  "split_nl [] = [[]]"
| "split_nl (c # cs) =
     (if c = CHR 0x0A then [] # split_nl cs
      else (case split_nl cs of [] \<Rightarrow> [[c]] | l # ls \<Rightarrow> (c # l) # ls))"


text \<open>
  The \<open>ChangeSet\<close> dataclass: three sets of 1-indexed line numbers and the list of the
  unchanged regions \<open>(start_line, end_line)\<close>.
\<close>

record ChangeSet =
  added_lines :: "int set"
  modified_lines :: "int set"
  removed_lines :: "int set"
  unchanged_regions :: "(int \<times> int) list"

text \<open>
  The per-line digest \<open>hashlib.md5(line.encode()).hexdigest()\<close> is a parameter \<open>md5\<close>
  of the model; the two lists of digests are \<open>old_hashes\<close> and \<open>new_hashes\<close>. The loop
  that fills \<open>common_lines\<close> changes nothing that the function returns and is left out.

  One pass of the loop that identifies the changes:
  \<^verbatim>\<open>for i, new_line in enumerate(new_lines):
    line_num = i + 1
    if i < len(old_lines):
        if old_hash != new_hash:
            if old_hash in new_hashes: modified_lines.add(line_num)
            else: added_lines.add(line_num)
    else:
        added_lines.add(line_num)\<close>
\<close>

definition identify_step ::
  "'h list \<Rightarrow> 'h list \<Rightarrow> nat \<Rightarrow> int set \<times> int set \<Rightarrow> int set \<times> int set" where
  "identify_step old_hashes new_hashes i s =
     (case s of (added, modified) \<Rightarrow>
        let line_num = int i + 1 in
        if i < length old_hashes then
          (if old_hashes ! i \<noteq> new_hashes ! i then
             (if old_hashes ! i \<in> set new_hashes then (added, insert line_num modified)
              else (insert line_num added, modified))
           else (added, modified))
        else (insert line_num added, modified))"

definition identify_changes :: "'h list \<Rightarrow> 'h list \<Rightarrow> int set \<times> int set" where
  "identify_changes old_hashes new_hashes =
     fold (identify_step old_hashes new_hashes) [0..<length new_hashes] ({}, {})"

text \<open>
  \<^verbatim>\<open>for i, old_line in enumerate(old_lines):
    line_num = i + 1
    if i >= len(new_lines) or old_hashes[i] not in new_hashes:
        removed_lines.add(line_num)\<close>
\<close>

definition removed_step :: "'h list \<Rightarrow> 'h list \<Rightarrow> nat \<Rightarrow> int set \<Rightarrow> int set" where
  "removed_step old_hashes new_hashes i removed =
     (let line_num = int i + 1 in
      if i \<ge> length new_hashes \<or> old_hashes ! i \<notin> set new_hashes
      then insert line_num removed else removed)"

definition find_removed :: "'h list \<Rightarrow> 'h list \<Rightarrow> int set" where
  "find_removed old_hashes new_hashes =
     fold (removed_step old_hashes new_hashes) [0..<length old_hashes] {}"

text \<open>
  The unchanged regions. \<open>region_starts\<close> is the test of the outer loop at index \<open>i\<close>,
  \<open>region_extends\<close> the test of the inner loop, which reads the digests at \<open>i + 1\<close> and
  looks up the line number \<open>i + 1\<close> in \<open>removed_lines\<close>:
  \<^verbatim>\<open>i = 0
while i < len(old_lines):
    if i + 1 not in removed_lines and (i >= len(new_lines) or new_hashes[i] == old_hashes[i]):
        start = i + 1
        end = i + 1
        while i + 1 < len(old_lines) and (i + 1 not in removed_lines and
              (i + 1 >= len(new_lines) or new_hashes[i + 1] == old_hashes[i + 1])):
            i += 1
            end = i + 1
        if start <= end:
            unchanged_regions.append((start, end))
    i += 1\<close>
\<close>

definition region_starts :: "'h list \<Rightarrow> 'h list \<Rightarrow> int set \<Rightarrow> nat \<Rightarrow> bool" where
  "region_starts old_hashes new_hashes removed i =
     (int i + 1 \<notin> removed \<and> (i \<ge> length new_hashes \<or> new_hashes ! i = old_hashes ! i))"

definition region_extends :: "'h list \<Rightarrow> 'h list \<Rightarrow> int set \<Rightarrow> nat \<Rightarrow> bool" where
  "region_extends old_hashes new_hashes removed i =
     (i + 1 < length old_hashes \<and>
      (int i + 1 \<notin> removed \<and>
       (i + 1 \<ge> length new_hashes \<or> new_hashes ! (i + 1) = old_hashes ! (i + 1))))"

function extend_region :: "'h list \<Rightarrow> 'h list \<Rightarrow> int set \<Rightarrow> nat \<Rightarrow> nat" where
  "extend_region old_hashes new_hashes removed i =
     (if region_extends old_hashes new_hashes removed i
      then extend_region old_hashes new_hashes removed (i + 1) else i)"
  by pat_completeness auto
termination
  by (relation "measure (\<lambda>(oh, nh, r, i). length oh - i)") (auto simp: region_extends_def)

declare extend_region.simps [simp del]

lemma extend_region_ge: "i \<le> extend_region oh nh r i"
  by (induction oh nh r i rule: extend_region.induct)
     (subst extend_region.simps, auto)

function unchanged_loop ::
  "'h list \<Rightarrow> 'h list \<Rightarrow> int set \<Rightarrow> nat \<Rightarrow> (int \<times> int) list \<Rightarrow> (int \<times> int) list" where
  "unchanged_loop old_hashes new_hashes removed i regions =
     (if i < length old_hashes then
        (if region_starts old_hashes new_hashes removed i then
           (let start = int i + 1;
                j = extend_region old_hashes new_hashes removed i;
                end = int j + 1
            in unchanged_loop old_hashes new_hashes removed (j + 1)
                 (if start \<le> end then regions @ [(start, end)] else regions))
         else unchanged_loop old_hashes new_hashes removed (i + 1) regions)
      else regions)"
  by pat_completeness auto
termination
proof (relation "measure (\<lambda>(oh, nh, r, i, acc). length oh - i)", goal_cases)
  case 1 show ?case by simp
next
  case (2 oh nh r i regions start j e)
  then show ?case using extend_region_ge[of i oh nh r] by auto
next
  case 3 then show ?case by auto
qed

declare unchanged_loop.simps [simp del]

definition compute_changeset :: "(string \<Rightarrow> 'h) \<Rightarrow> string \<Rightarrow> string \<Rightarrow> ChangeSet" where
  "compute_changeset md5 old_code new_code =
     (let old_lines = split_nl old_code;
          new_lines = split_nl new_code;
          old_hashes = map md5 old_lines;
          new_hashes = map md5 new_lines;
          (added, modified) = identify_changes old_hashes new_hashes;
          removed = find_removed old_hashes new_hashes
      in \<lparr> added_lines = added, modified_lines = modified, removed_lines = removed,
           unchanged_regions = unchanged_loop old_hashes new_hashes removed 0 [] \<rparr>)"

text \<open>
  A line number is covered by a region when it lies between its two ends;
  \<open>count_cover\<close> counts the regions of a list that cover it.
\<close>

definition covers :: "int \<Rightarrow> int \<times> int \<Rightarrow> bool" where
  "covers n r = (fst r \<le> n \<and> n \<le> snd r)"

definition count_cover :: "int \<Rightarrow> (int \<times> int) list \<Rightarrow> nat" where
  "count_cover n rs = length (filter (covers n) rs)"

text \<open>
  The three ways the source treats index \<open>i\<close> of the new revision.
\<close>

definition is_added :: "'h list \<Rightarrow> 'h list \<Rightarrow> nat \<Rightarrow> bool" where
  "is_added oh nh i = (if i < length oh then oh ! i \<noteq> nh ! i \<and> oh ! i \<notin> set nh else True)"

definition is_modified :: "'h list \<Rightarrow> 'h list \<Rightarrow> nat \<Rightarrow> bool" where
  "is_modified oh nh i = (i < length oh \<and> oh ! i \<noteq> nh ! i \<and> oh ! i \<in> set nh)"

definition same_at :: "'h list \<Rightarrow> 'h list \<Rightarrow> nat \<Rightarrow> bool" where
  "same_at oh nh k = (k < length oh \<and> k < length nh \<and> nh ! k = oh ! k)"

section \<open>Python values\<close>

text \<open>
  The analyzers pass issues, locations and reports around as \<open>Dict[str, Any]\<close>. The
  values the model knows are the ones JSON can carry: \<open>None\<close>, booleans, integers,
  strings, lists and dictionaries (floating-point numbers are left out). A dictionary is
  an insertion-ordered list of key/value pairs whose keys are hashable values.
\<close>

datatype pyval =
    PNone
  | PBool bool
  | PInt int
  | PStr string
  | PList "pyval list"
  | PDict "(pyval \<times> pyval) list"

datatype pyerr = TypeError | AttributeError | KeyError | IndexError | ZeroDivisionError
  | JSONDecodeError

text \<open>Sequencing of steps that can raise: the first exception ends the computation.\<close>

definition rbind :: "pyerr + 'a \<Rightarrow> ('a \<Rightarrow> pyerr + 'b) \<Rightarrow> pyerr + 'b" where
  "rbind m f = (case m of Inl e \<Rightarrow> Inl e | Inr x \<Rightarrow> f x)"

text \<open>Truth value testing: \<open>if v:\<close>, \<open>a or b\<close>, \<open>a and b\<close>.\<close>

fun py_truthy :: "pyval \<Rightarrow> bool" where
  "py_truthy PNone = False"
| "py_truthy (PBool b) = b"
| "py_truthy (PInt i) = (i \<noteq> 0)"
| "py_truthy (PStr s) = (s \<noteq> [])"
| "py_truthy (PList xs) = (xs \<noteq> [])"
| "py_truthy (PDict d) = (d \<noteq> [])"

definition py_or :: "pyval \<Rightarrow> pyval \<Rightarrow> pyval" where
  "py_or a b = (if py_truthy a then a else b)"

text \<open>Lists and dictionaries are unhashable; every other value can be a key.\<close>

fun py_hashable :: "pyval \<Rightarrow> bool" where
  "py_hashable (PList xs) = False"
| "py_hashable (PDict d) = False"
| "py_hashable v = True"

text \<open>The numeric value of an \<open>int\<close> or a \<open>bool\<close> (\<open>True\<close> is 1, \<open>False\<close> is 0).\<close>

fun py_num :: "pyval \<Rightarrow> int option" where
  "py_num (PInt i) = Some i"
| "py_num (PBool b) = Some (if b then 1 else 0)"
| "py_num v = None"

text \<open>
  \<open>==\<close> between hashable values, as a dictionary uses it to find a key: numbers by
  value (\<open>True == 1\<close>), strings by content, \<open>None\<close> only with itself.
\<close>

fun key_eq :: "pyval \<Rightarrow> pyval \<Rightarrow> bool" where
  "key_eq PNone PNone = True"
| "key_eq (PStr s) (PStr t) = (s = t)"
| "key_eq (PInt i) b = (py_num b = Some i)"
| "key_eq (PBool a) b = (py_num b = Some (if a then 1 else 0))"
| "key_eq a b = False"

fun pdict_lookup :: "(pyval \<times> 'v) list \<Rightarrow> pyval \<Rightarrow> 'v option" where
  "pdict_lookup [] k = None"
| "pdict_lookup ((k', v) # d) k = (if key_eq k' k then Some v else pdict_lookup d k)"

fun pdict_set :: "(pyval \<times> 'v) list \<Rightarrow> pyval \<Rightarrow> 'v \<Rightarrow> (pyval \<times> 'v) list" where
  "pdict_set [] k v = [(k, v)]"
| "pdict_set ((k', v') # d) k v =
     (if key_eq k' k then (k', v) # d else (k', v') # pdict_set d k v)"

text \<open>\<open>==\<close> on all values; two dictionaries are equal when they hold the same items.\<close>

fun py_eq :: "pyval \<Rightarrow> pyval \<Rightarrow> bool" where
  "py_eq (PList xs) b = (case b of PList ys \<Rightarrow> list_all2 py_eq xs ys | _ \<Rightarrow> False)"
| "py_eq (PDict d) b =
     (case b of
        PDict e \<Rightarrow> length d = length e \<and>
                   list_all (\<lambda>(k, v). case pdict_lookup e k of None \<Rightarrow> False
                                                            | Some w \<Rightarrow> py_eq v w) d
      | _ \<Rightarrow> False)"
| "py_eq a b = key_eq a b"

text \<open>The method \<open>v.get(k, dflt)\<close> with a string key: only a dictionary has it.\<close>

definition py_get :: "pyval \<Rightarrow> string \<Rightarrow> pyval \<Rightarrow> pyerr + pyval" where
  "py_get v k dflt =
     (case v of
        PDict d \<Rightarrow> Inr (case pdict_lookup d (PStr k) of None \<Rightarrow> dflt | Some x \<Rightarrow> x)
      | _ \<Rightarrow> Inl AttributeError)"

text \<open>\<open>t in s\<close> for two strings: \<open>t\<close> occurs in \<open>s\<close> as a contiguous piece.\<close>

fun starts_with :: "string \<Rightarrow> string \<Rightarrow> bool" where
  "starts_with s [] = True"
| "starts_with [] (c # t) = False"
| "starts_with (c # s) (c' # t) = (c = c' \<and> starts_with s t)"

fun is_substring :: "string \<Rightarrow> string \<Rightarrow> bool" where
  "is_substring t [] = (t = [])"
| "is_substring t (c # s) = (starts_with (c # s) t \<or> is_substring t s)"

text \<open>The operator \<open>x in c\<close>.\<close>

definition py_contains :: "pyval \<Rightarrow> pyval \<Rightarrow> pyerr + bool" where
  "py_contains x c =
     (case c of
        PDict d \<Rightarrow> if py_hashable x then Inr (pdict_lookup d x \<noteq> None) else Inl TypeError
      | PList xs \<Rightarrow> Inr (list_ex (\<lambda>y. py_eq y x) xs)
      | PStr s \<Rightarrow> (case x of PStr t \<Rightarrow> Inr (is_substring t s) | _ \<Rightarrow> Inl TypeError)
      | _ \<Rightarrow> Inl TypeError)"

text \<open>A sequence index: negative indices count from the end.\<close>

definition seq_index :: "nat \<Rightarrow> pyval \<Rightarrow> pyerr + nat" where
  "seq_index n x =
     (case py_num x of
        None \<Rightarrow> Inl TypeError
      | Some i \<Rightarrow> let j = (if i < 0 then int n + i else i)
                  in if 0 \<le> j \<and> j < int n then Inr (nat j) else Inl IndexError)"

text \<open>The subscription \<open>c[x]\<close>.\<close>

definition py_getitem :: "pyval \<Rightarrow> pyval \<Rightarrow> pyerr + pyval" where
  "py_getitem c x =
     (case c of
        PDict d \<Rightarrow>
          if py_hashable x
          then (case pdict_lookup d x of None \<Rightarrow> Inl KeyError | Some v \<Rightarrow> Inr v)
          else Inl TypeError
      | PList xs \<Rightarrow> rbind (seq_index (length xs) x) (\<lambda>i. Inr (xs ! i))
      | PStr s \<Rightarrow> rbind (seq_index (length s) x) (\<lambda>i. Inr (PStr [s ! i]))
      | _ \<Rightarrow> Inl TypeError)"

text \<open>The item assignment \<open>c[x] = v\<close>; the result is the container after it.\<close>

definition py_setitem :: "pyval \<Rightarrow> pyval \<Rightarrow> pyval \<Rightarrow> pyerr + pyval" where
  "py_setitem c x v =
     (case c of
        PDict d \<Rightarrow> if py_hashable x then Inr (PDict (pdict_set d x v)) else Inl TypeError
      | PList xs \<Rightarrow> rbind (seq_index (length xs) x) (\<lambda>i. Inr (PList (xs[i := v])))
      | _ \<Rightarrow> Inl TypeError)"

text \<open>The values a \<open>for\<close> loop over \<open>c\<close> visits.\<close>

definition py_iter :: "pyval \<Rightarrow> pyerr + pyval list" where
  "py_iter c =
     (case c of
        PList xs \<Rightarrow> Inr xs
      | PDict d \<Rightarrow> Inr (map fst d)
      | PStr s \<Rightarrow> Inr (map (\<lambda>ch. PStr [ch]) s)
      | _ \<Rightarrow> Inl TypeError)"

text \<open>\<open>v + 1\<close>, \<open>v >= n\<close> and \<open>abs(a - b) <= n\<close> for an integer \<open>n\<close>.\<close>

definition py_add1 :: "pyval \<Rightarrow> pyerr + pyval" where
  "py_add1 v = (case py_num v of None \<Rightarrow> Inl TypeError | Some i \<Rightarrow> Inr (PInt (i + 1)))"

definition py_ge :: "pyval \<Rightarrow> int \<Rightarrow> pyerr + bool" where
  "py_ge v n = (case py_num v of None \<Rightarrow> Inl TypeError | Some i \<Rightarrow> Inr (i \<ge> n))"

definition py_abs_diff_le :: "pyval \<Rightarrow> pyval \<Rightarrow> int \<Rightarrow> pyerr + bool" where
  "py_abs_diff_le a b n =
     (case (py_num a, py_num b) of
        (Some i, Some j) \<Rightarrow> Inr (\<bar>i - j\<bar> \<le> n)
      | _ \<Rightarrow> Inl TypeError)"

text \<open>
  The true division \<open>a / b\<close> of two numbers. Python gives the nearest floating-point
  number; the model keeps the exact quotient.
\<close>

definition py_truediv :: "pyval \<Rightarrow> pyval \<Rightarrow> pyerr + rat" where
  "py_truediv a b =
     (case (py_num a, py_num b) of
        (Some i, Some j) \<Rightarrow> if j = 0 then Inl ZeroDivisionError else Inr (of_int i / of_int j)
      | _ \<Rightarrow> Inl TypeError)"

text \<open>The method \<open>c.append(v)\<close>: only a list has it.\<close>

definition py_append :: "pyval \<Rightarrow> pyval \<Rightarrow> pyerr + pyval" where
  "py_append c v = (case c of PList xs \<Rightarrow> Inr (PList (xs @ [v])) | _ \<Rightarrow> Inl AttributeError)"

section \<open>false_positive_handler.py\<close>

text \<open>
  The dataclass \<open>FalsePositiveReport\<close>. A dataclass does not check the types of its
  fields, and \<open>import_false_positives\<close> builds reports from whatever the JSON text holds,
  so every field is a Python value. The annotated types are \<open>str\<close> for \<open>issue_id\<close>,
  \<open>issue_type\<close>, \<open>contract_hash\<close> and \<open>reason\<close>, a dictionary for \<open>location\<close>,
  \<open>Optional[str]\<close> for \<open>reported_by\<close> and \<open>reported_at\<close>, and \<open>bool\<close> for \<open>verified\<close>.
\<close>

record FalsePositiveReport =
  issue_id :: pyval
  issue_type :: pyval
  contract_hash :: pyval
  location :: pyval
  reason :: pyval
  reported_by :: pyval
  reported_at :: pyval
  verified :: pyval

text \<open>
  The state of a \<open>FalsePositiveHandler\<close>: \<open>false_positives\<close> and \<open>learning_data\<close> are
  \<open>defaultdict(list)\<close>, \<open>issue_patterns\<close> is a dictionary at first and whatever
  \<open>import_false_positives\<close> read afterwards.
\<close>

record handler =
  false_positives :: "(pyval \<times> FalsePositiveReport list) list"
  issue_patterns :: pyval
  learning_data :: "(pyval \<times> pyval list) list"

definition init_handler :: handler where
  "init_handler = \<lparr> false_positives = [], issue_patterns = PDict [], learning_data = [] \<rparr>"

text \<open>
  The key \<open>f"{issue_type}:{contract_hash}"\<close>. The conversion of a value to text inside an
  f-string is the parameter \<open>fmt\<close> of the model (for a string it is the string itself);
  \<open>contract_hash\<close> is a \<open>str\<close> everywhere.
\<close>

definition report_key :: "(pyval \<Rightarrow> string) \<Rightarrow> pyval \<Rightarrow> string \<Rightarrow> pyval" where
  "report_key fmt itype chash = PStr (fmt itype @ '':'' @ chash)"

text \<open>
  \<open>report_false_positive\<close>; \<open>now\<close> is the text of \<open>datetime.utcnow().isoformat()\<close>.
  Indexing the \<open>defaultdict\<close> \<open>learning_data\<close> with an unhashable issue type raises after
  the report has been stored.
\<close>

definition report_false_positive ::
  "(pyval \<Rightarrow> string) \<Rightarrow> string \<Rightarrow> handler \<Rightarrow> pyval \<Rightarrow> pyval \<Rightarrow> string \<Rightarrow> pyval \<Rightarrow> pyval \<Rightarrow> pyval
     \<Rightarrow> handler \<times> (pyerr + bool)" where
  "report_false_positive fmt now self iid itype chash loc rsn reporter =
     (let report = \<lparr> issue_id = iid, issue_type = itype, contract_hash = PStr chash,
                      location = loc, reason = rsn, reported_by = reporter,
                      reported_at = PStr now, verified = PBool False \<rparr>;
          key = report_key fmt itype chash;
          reports = (case pdict_lookup (false_positives self) key of None \<Rightarrow> [] | Some rs \<Rightarrow> rs);
          self1 = self\<lparr> false_positives := pdict_set (false_positives self) key (reports @ [report]) \<rparr>
      in if \<not> py_hashable itype then (self1, Inl TypeError)
         else
           let entries = (case pdict_lookup (learning_data self1) itype of None \<Rightarrow> [] | Some es \<Rightarrow> es);
               entry = PDict [(PStr ''contract_hash'', PStr chash), (PStr ''location'', loc),
                              (PStr ''reason'', rsn), (PStr ''reported_at'', PStr now)]
           in (self1\<lparr> learning_data := pdict_set (learning_data self1) itype (entries @ [entry]) \<rparr>,
               Inr True))"

text \<open>
  \<open>_location_matches\<close>. The first test returns whenever both lines are truthy, so the
  second test, with the same condition, is never reached; it is kept as the source has it.
\<close>

definition location_matches :: "pyval \<Rightarrow> pyval \<Rightarrow> pyerr + bool" where
  "location_matches loc1 loc2 =
     rbind (py_get loc1 ''line'' PNone) (\<lambda>a1.
     rbind (py_get loc1 ''lineNumber'' PNone) (\<lambda>b1.
     rbind (py_get loc2 ''line'' PNone) (\<lambda>a2.
     rbind (py_get loc2 ''lineNumber'' PNone) (\<lambda>b2.
       let line1 = py_or a1 b1; line2 = py_or a2 b2 in
       if py_truthy line1 \<and> py_truthy line2 then Inr (py_eq line1 line2)
       else if py_truthy line1 \<and> py_truthy line2 then py_abs_diff_le line1 line2 5
       else Inr False))))"

text \<open>
  The loop of \<open>is_false_positive\<close>:
  \<^verbatim>\<open>for report in reports:
    if report.verified and self._location_matches(report.location, location):
        return True
return False\<close>
\<close>

fun verified_match :: "FalsePositiveReport list \<Rightarrow> pyval \<Rightarrow> pyerr + bool" where
  "verified_match [] loc = Inr False"
| "verified_match (report # reports) loc =
     (if py_truthy (verified report)
      then rbind (location_matches (location report) loc)
             (\<lambda>m. if m then Inr True else verified_match reports loc)
      else verified_match reports loc)"

definition is_false_positive ::
  "(pyval \<Rightarrow> string) \<Rightarrow> handler \<Rightarrow> pyval \<Rightarrow> string \<Rightarrow> pyval \<Rightarrow> pyerr + bool" where
  "is_false_positive fmt self itype chash loc =
     (case pdict_lookup (false_positives self) (report_key fmt itype chash) of
        None \<Rightarrow> Inr False
      | Some reports \<Rightarrow> verified_match reports loc)"

text \<open>
  \<open>_update_learning_pattern\<close>, on the value of \<open>issue_patterns\<close>. Each step either
  raises and leaves the value as the steps before made it, or goes on.

  \<open>bump_count\<close> is \<open>self.issue_patterns[t]["false_positive_count"] += 1\<close>.
\<close>

definition new_entry :: pyval where
  "new_entry = PDict [(PStr ''false_positive_count'', PInt 0), (PStr ''patterns'', PList [])]"

definition bump_count :: "pyval \<Rightarrow> pyval \<Rightarrow> pyerr + pyval" where
  "bump_count ip t =
     rbind (py_getitem ip t) (\<lambda>ent.
     rbind (py_getitem ent (PStr ''false_positive_count'')) (\<lambda>c.
     rbind (py_add1 c) (\<lambda>c'.
     rbind (py_setitem ent (PStr ''false_positive_count'') c') (\<lambda>ent'.
       py_setitem ip t ent'))))"

text \<open>
  \<^verbatim>\<open>for p in self.issue_patterns[report.issue_type]["patterns"]:
    if p.get("reason") == report.reason:
        existing_pattern = p
        break\<close>
  The result is the position of \<open>existing_pattern\<close>, if the loop found one.
\<close>

fun find_existing :: "pyval list \<Rightarrow> pyval \<Rightarrow> pyerr + nat option" where
  "find_existing [] rsn = Inr None"
| "find_existing (p # ps) rsn =
     rbind (py_get p ''reason'' PNone) (\<lambda>r.
       if py_eq r rsn then Inr (Some 0)
       else rbind (find_existing ps rsn) (\<lambda>found. Inr (map_option Suc found)))"

text \<open>
  \<^verbatim>\<open>if existing_pattern:
    existing_pattern["count"] += 1
else:
    self.issue_patterns[report.issue_type]["patterns"].append(pattern)\<close>
  The pattern found is an element of the list \<open>patterns\<close> and is changed in place.
\<close>

definition record_pattern :: "pyval \<Rightarrow> pyval \<Rightarrow> pyval \<Rightarrow> pyval \<Rightarrow> pyerr + pyval" where
  "record_pattern ip t pattern rsn =
     rbind (py_getitem ip t) (\<lambda>ent.
     rbind (py_getitem ent (PStr ''patterns'')) (\<lambda>pats.
     rbind (py_iter pats) (\<lambda>ps.
     rbind (find_existing ps rsn) (\<lambda>found.
       let existing = (case found of None \<Rightarrow> None
                       | Some i \<Rightarrow> if py_truthy (ps ! i) then Some i else None)
       in case existing of
            Some i \<Rightarrow>
              rbind (py_getitem (ps ! i) (PStr ''count'')) (\<lambda>c.
              rbind (py_add1 c) (\<lambda>c'.
              rbind (py_setitem (ps ! i) (PStr ''count'') c') (\<lambda>p'.
              rbind (py_setitem ent (PStr ''patterns'')
                       (case pats of PList xs \<Rightarrow> PList (xs[i := p']) | other \<Rightarrow> other)) (\<lambda>ent'.
                py_setitem ip t ent'))))
          | None \<Rightarrow>
              rbind (py_append pats pattern) (\<lambda>pats'.
              rbind (py_setitem ent (PStr ''patterns'') pats') (\<lambda>ent'.
                py_setitem ip t ent'))))))"

definition update_patterns :: "pyval \<Rightarrow> FalsePositiveReport \<Rightarrow> pyval \<times> (pyerr + unit)" where
  "update_patterns ip report =
     (let t = issue_type report in
      case py_contains t ip of
        Inl e \<Rightarrow> (ip, Inl e)
      | Inr present \<Rightarrow>
          (case (if present then Inr ip else py_setitem ip t new_entry) of
             Inl e \<Rightarrow> (ip, Inl e)
           | Inr ip1 \<Rightarrow>
               (case bump_count ip1 t of
                  Inl e \<Rightarrow> (ip1, Inl e)
                | Inr ip2 \<Rightarrow>
                    (case py_get (location report) ''type'' PNone of
                       Inl e \<Rightarrow> (ip2, Inl e)
                     | Inr location_type \<Rightarrow>
                         let pattern = PDict [(PStr ''reason'', reason report),
                                              (PStr ''location_type'', location_type),
                                              (PStr ''count'', PInt 1)]
                         in case record_pattern ip2 t pattern (reason report) of
                              Inl e \<Rightarrow> (ip2, Inl e)
                            | Inr ip3 \<Rightarrow> (ip3, Inr ())))))"

definition update_learning_pattern :: "handler \<Rightarrow> FalsePositiveReport \<Rightarrow> handler \<times> (pyerr + unit)" where
  "update_learning_pattern self report =
     (case update_patterns (issue_patterns self) report of
        (ip, res) \<Rightarrow> (self\<lparr> issue_patterns := ip \<rparr>, res))"

text \<open>
  \<open>verify_false_positive\<close>: the position of the first report of the key whose location
  matches, then the report is marked and folded into the learning pattern.
  \<^verbatim>\<open>for report in self.false_positives[key]:
    if self._location_matches(report.location, location):
        report.verified = True
        self._update_learning_pattern(report)
        return True
return False\<close>
\<close>

fun first_match :: "FalsePositiveReport list \<Rightarrow> pyval \<Rightarrow> pyerr + nat option" where
  "first_match [] loc = Inr None"
| "first_match (report # reports) loc =
     rbind (location_matches (location report) loc) (\<lambda>m.
       if m then Inr (Some 0)
       else rbind (first_match reports loc) (\<lambda>found. Inr (map_option Suc found)))"

definition verify_false_positive ::
  "(pyval \<Rightarrow> string) \<Rightarrow> handler \<Rightarrow> pyval \<Rightarrow> string \<Rightarrow> pyval \<Rightarrow> handler \<times> (pyerr + bool)" where
  "verify_false_positive fmt self itype chash loc =
     (let key = report_key fmt itype chash in
      case pdict_lookup (false_positives self) key of
        None \<Rightarrow> (self, Inr False)
      | Some reports \<Rightarrow>
          (case first_match reports loc of
             Inl e \<Rightarrow> (self, Inl e)
           | Inr None \<Rightarrow> (self, Inr False)
           | Inr (Some i) \<Rightarrow>
               let report = (reports ! i)\<lparr> verified := PBool True \<rparr>;
                   self1 = self\<lparr> false_positives :=
                                   pdict_set (false_positives self) key (reports[i := report]) \<rparr>
               in case update_learning_pattern self1 report of
                    (self2, Inl e) \<Rightarrow> (self2, Inl e)
                  | (self2, Inr u) \<Rightarrow> (self2, Inr True)))"

text \<open>
  The loop over the patterns in \<open>should_suppress_issue\<close>. The confidence is a
  floating-point number in the source and an exact fraction here: the two can differ
  for counts too large for a floating-point number to hold exactly.
  \<^verbatim>\<open>for p in pattern.get("patterns", []):
    if p.get("location_type") == location_type:
        confidence = min(1.0, p.get("count", 0) / fp_count)
        if confidence >= confidence_threshold:
            return True\<close>
\<close>

fun confident_pattern :: "pyval list \<Rightarrow> pyval \<Rightarrow> pyval \<Rightarrow> rat \<Rightarrow> pyerr + bool" where
  "confident_pattern [] location_type fp_count confidence_threshold = Inr False"
| "confident_pattern (p # ps) location_type fp_count confidence_threshold =
     rbind (py_get p ''location_type'' PNone) (\<lambda>lt.
       if py_eq lt location_type
       then rbind (py_get p ''count'' (PInt 0)) (\<lambda>c.
            rbind (py_truediv c fp_count) (\<lambda>q.
              let confidence = min 1 q in
              if confidence \<ge> confidence_threshold then Inr True
              else confident_pattern ps location_type fp_count confidence_threshold))
       else confident_pattern ps location_type fp_count confidence_threshold)"

definition should_suppress_issue ::
  "(pyval \<Rightarrow> string) \<Rightarrow> handler \<Rightarrow> pyval \<Rightarrow> string \<Rightarrow> pyval \<Rightarrow> rat \<Rightarrow> pyerr + bool" where
  "should_suppress_issue fmt self itype chash loc confidence_threshold =
     rbind (is_false_positive fmt self itype chash loc) (\<lambda>known.
       if known then Inr True
       else
         rbind (py_contains itype (issue_patterns self)) (\<lambda>present.
           if present then
             rbind (py_getitem (issue_patterns self) itype) (\<lambda>pattern.
             rbind (py_get pattern ''false_positive_count'' (PInt 0)) (\<lambda>fp_count.
             rbind (py_ge fp_count 3) (\<lambda>enough.
               if enough then
                 rbind (py_get loc ''type'' PNone) (\<lambda>location_type.
                 rbind (py_get pattern ''patterns'' (PList [])) (\<lambda>pats.
                 rbind (py_iter pats) (\<lambda>ps.
                   confident_pattern ps location_type fp_count confidence_threshold)))
               else Inr False)))
           else Inr False))"

text \<open>
  \<open>filter_false_positives\<close>. The issues are dictionaries that the caller owns: the list
  holds their addresses and \<open>heap\<close> gives the dictionary at an address, so that the
  assignments \<open>issue["suppressed"] = True\<close> are changes of the caller's objects. The
  result is the heap after the call and the list \<open>filtered\<close>. What an issue holds under
  its keys is held by value: an issue that holds another issue of the list is outside
  the model.
\<close>

definition default_threshold :: rat where
  "default_threshold = 7 / 10"

definition mark_suppressed :: "pyval \<Rightarrow> pyerr + pyval" where
  "mark_suppressed issue =
     rbind (py_setitem issue (PStr ''suppressed'') (PBool True)) (\<lambda>issue'.
       py_setitem issue' (PStr ''suppression_reason'') (PStr ''Known false positive''))"

definition issue_suppressed ::
  "(pyval \<Rightarrow> string) \<Rightarrow> handler \<Rightarrow> string \<Rightarrow> pyval \<Rightarrow> pyerr + bool" where
  "issue_suppressed fmt self chash issue =
     rbind (py_get issue ''type'' PNone) (\<lambda>t1.
     rbind (py_get issue ''check'' PNone) (\<lambda>t2.
     rbind (py_get issue ''location'' PNone) (\<lambda>l.
     rbind (py_get issue ''lineNumber'' PNone) (\<lambda>n.
       let itype = py_or t1 t2;
           loc = py_or l (PDict [(PStr ''line'', n), (PStr ''type'', PStr ''line'')])
       in should_suppress_issue fmt self itype chash loc default_threshold))))"

fun filter_loop ::
  "(pyval \<Rightarrow> string) \<Rightarrow> handler \<Rightarrow> string \<Rightarrow> (nat \<Rightarrow> pyval) \<Rightarrow> nat list \<Rightarrow> nat list
     \<Rightarrow> (nat \<Rightarrow> pyval) \<times> (pyerr + nat list)" where
  "filter_loop fmt self chash heap [] filtered = (heap, Inr filtered)"
| "filter_loop fmt self chash heap (a # issues) filtered =
     (case issue_suppressed fmt self chash (heap a) of
        Inl e \<Rightarrow> (heap, Inl e)
      | Inr False \<Rightarrow> filter_loop fmt self chash heap issues (filtered @ [a])
      | Inr True \<Rightarrow>
          (case mark_suppressed (heap a) of
             Inl e \<Rightarrow> (heap, Inl e)
           | Inr issue' \<Rightarrow> filter_loop fmt self chash (heap(a := issue')) issues filtered))"

definition filter_false_positives ::
  "(pyval \<Rightarrow> string) \<Rightarrow> handler \<Rightarrow> (nat \<Rightarrow> pyval) \<Rightarrow> nat list \<Rightarrow> string
     \<Rightarrow> (nat \<Rightarrow> pyval) \<times> (pyerr + nat list)" where
  "filter_false_positives fmt self heap issues chash = filter_loop fmt self chash heap issues []"

text \<open>
  \<open>asdict(r)\<close> and the constructor call \<open>FalsePositiveReport(**r)\<close>: the keywords must
  be strings, each one the name of a field, with the five fields that have no default
  among them.
\<close>

definition asdict :: "FalsePositiveReport \<Rightarrow> pyval" where
  "asdict r = PDict [(PStr ''issue_id'', issue_id r), (PStr ''issue_type'', issue_type r),
                     (PStr ''contract_hash'', contract_hash r), (PStr ''location'', location r),
                     (PStr ''reason'', reason r), (PStr ''reported_by'', reported_by r),
                     (PStr ''reported_at'', reported_at r), (PStr ''verified'', verified r)]"

definition field_names :: "pyval list" where
  "field_names = [PStr ''issue_id'', PStr ''issue_type'', PStr ''contract_hash'', PStr ''location'',
                  PStr ''reason'', PStr ''reported_by'', PStr ''reported_at'', PStr ''verified'']"

definition report_of_kwargs :: "pyval \<Rightarrow> pyerr + FalsePositiveReport" where
  "report_of_kwargs r =
     (case r of
        PDict kw \<Rightarrow>
          if \<not> list_all (\<lambda>kv. fst kv \<in> set field_names) kw then Inl TypeError
          else
            (case (pdict_lookup kw (PStr ''issue_id''), pdict_lookup kw (PStr ''issue_type''),
                   pdict_lookup kw (PStr ''contract_hash''), pdict_lookup kw (PStr ''location''),
                   pdict_lookup kw (PStr ''reason'')) of
               (Some iid, Some itype, Some chash, Some loc, Some rsn) \<Rightarrow>
                 Inr \<lparr> issue_id = iid, issue_type = itype, contract_hash = chash,
                       location = loc, reason = rsn,
                       reported_by = (case pdict_lookup kw (PStr ''reported_by'') of
                                        None \<Rightarrow> PNone | Some v \<Rightarrow> v),
                       reported_at = (case pdict_lookup kw (PStr ''reported_at'') of
                                        None \<Rightarrow> PNone | Some v \<Rightarrow> v),
                       verified = (case pdict_lookup kw (PStr ''verified'') of
                                     None \<Rightarrow> PBool False | Some v \<Rightarrow> v) \<rparr>
             | _ \<Rightarrow> Inl TypeError)
      | _ \<Rightarrow> Inl TypeError)"

fun build_reports :: "pyval list \<Rightarrow> pyerr + FalsePositiveReport list" where
  "build_reports [] = Inr []"
| "build_reports (r # rs) =
     rbind (report_of_kwargs r) (\<lambda>report.
     rbind (build_reports rs) (\<lambda>reports. Inr (report # reports)))"

text \<open>
  \<open>export_false_positives\<close>; \<open>json.dumps\<close> is the parameter \<open>dumps\<close> and \<open>now\<close> the
  text of the export time.
\<close>

definition export_data :: "handler \<Rightarrow> string \<Rightarrow> pyval" where
  "export_data self now =
     PDict [(PStr ''false_positives'',
             PDict (map (\<lambda>(key, reports). (key, PList (map asdict reports))) (false_positives self))),
            (PStr ''learning_patterns'', issue_patterns self),
            (PStr ''exported_at'', PStr now)]"

definition export_false_positives :: "(pyval \<Rightarrow> string) \<Rightarrow> handler \<Rightarrow> string \<Rightarrow> string" where
  "export_false_positives dumps self now = dumps (export_data self now)"

text \<open>
  \<open>import_false_positives\<close>; \<open>json.loads\<close> is the parameter \<open>loads\<close>. The result is the
  state the call leaves behind and either the exception that the \<open>except\<close> clause
  raises again or the normal return.
  \<^verbatim>\<open>for key, reports_data in data.get("false_positives", {}).items():
    self.false_positives[key] = [FalsePositiveReport(**r) for r in reports_data]\<close>
\<close>

fun import_items ::
  "(pyval \<times> FalsePositiveReport list) list \<Rightarrow> (pyval \<times> pyval) list
     \<Rightarrow> (pyval \<times> FalsePositiveReport list) list \<times> (pyerr + unit)" where
  "import_items fps [] = (fps, Inr ())"
| "import_items fps ((key, reports_data) # items) =
     (case rbind (py_iter reports_data) build_reports of
        Inl e \<Rightarrow> (fps, Inl e)
      | Inr reports \<Rightarrow> import_items (pdict_set fps key reports) items)"

definition py_items :: "pyval \<Rightarrow> pyerr + (pyval \<times> pyval) list" where
  "py_items v = (case v of PDict d \<Rightarrow> Inr d | _ \<Rightarrow> Inl AttributeError)"

definition import_false_positives ::
  "(string \<Rightarrow> pyerr + pyval) \<Rightarrow> handler \<Rightarrow> string \<Rightarrow> handler \<times> (pyerr + unit)" where
  "import_false_positives loads self json_data =
     (case loads json_data of
        Inl e \<Rightarrow> (self, Inl e)
      | Inr data \<Rightarrow>
          (case rbind (py_get data ''false_positives'' (PDict [])) py_items of
             Inl e \<Rightarrow> (self, Inl e)
           | Inr items \<Rightarrow>
               (case import_items (false_positives self) items of
                  (fps, Inl e) \<Rightarrow> (self\<lparr> false_positives := fps \<rparr>, Inl e)
                | (fps, Inr u) \<Rightarrow>
                    (case py_get data ''learning_patterns'' (PDict []) of
                       Inl e \<Rightarrow> (self\<lparr> false_positives := fps \<rparr>, Inl e)
                     | Inr patterns \<Rightarrow>
                         (self\<lparr> false_positives := fps, issue_patterns := patterns \<rparr>, Inr ())))))"

subsection \<open>Vocabulary of the properties\<close>

text \<open>
  Vocabulary for the properties of the handler. \<open>line_loc L K\<close> is the location
  \<open>{"line": L, "type": K}\<close>.
\<close>

definition line_loc :: "int \<Rightarrow> string \<Rightarrow> pyval" where
  "line_loc L K = PDict [(PStr ''line'', PInt L), (PStr ''type'', PStr K)]"

text \<open>
  The value of \<open>issue_patterns\<close> after \<open>n\<close> verified reports of type \<open>T\<close> with the
  reason \<open>R\<close> and the location kind \<open>K\<close>.
\<close>

definition learned :: "string \<Rightarrow> string \<Rightarrow> string \<Rightarrow> nat \<Rightarrow> pyval" where
  "learned T R K n =
     (if n = 0 then PDict []
      else PDict [(PStr T,
             PDict [(PStr ''false_positive_count'', PInt (int n)),
                    (PStr ''patterns'',
                     PList [PDict [(PStr ''reason'', PStr R), (PStr ''location_type'', PStr K),
                                   (PStr ''count'', PInt (int n))]])])])"

text \<open>A report of type \<open>T\<close> with the reason \<open>R\<close> at some line of kind \<open>K\<close>.\<close>

definition good_report :: "string \<Rightarrow> string \<Rightarrow> string \<Rightarrow> FalsePositiveReport \<Rightarrow> bool" where
  "good_report T R K r =
     (issue_type r = PStr T \<and> reason r = PStr R \<and> (\<exists>L. L \<noteq> 0 \<and> location r = line_loc L K))"

text \<open>
  What holds of a handler that has only received such reports, for unit fingerprints in
  \<open>H\<close>, \<open>n\<close> of them verified.
\<close>

definition inv_handler ::
  "(pyval \<Rightarrow> string) \<Rightarrow> string \<Rightarrow> string \<Rightarrow> string \<Rightarrow> string set \<Rightarrow> nat \<Rightarrow> handler \<Rightarrow> bool" where
  "inv_handler fmt T R K H n st =
     (issue_patterns st = learned T R K n \<and>
      list_all (\<lambda>kv. (\<exists>h \<in> H. fst kv = report_key fmt (PStr T) h) \<and>
                      list_all (good_report T R K) (snd kv)) (false_positives st))"

text \<open>An issue after \<open>filter_false_positives\<close> has flagged it.\<close>

definition marked :: "pyval \<Rightarrow> pyval" where
  "marked issue = (case mark_suppressed issue of Inl e \<Rightarrow> issue | Inr issue' \<Rightarrow> issue')"

text \<open>
  Concrete data for the witnesses: a conversion to text that is Python's on strings,
  booleans and \<open>None\<close> (the witnesses convert strings only), a handler that holds one
  verified report, and a heap with two issues, before and after the filter.
\<close>

definition str_text :: "pyval \<Rightarrow> string" where
  "str_text v = (case v of PStr s \<Rightarrow> s | PBool b \<Rightarrow> (if b then ''True'' else ''False'')
                 | _ \<Rightarrow> ''None'')"

definition demo_report :: FalsePositiveReport where
  "demo_report = \<lparr> issue_id = PStr ''issue-1'', issue_type = PStr ''reentrancy'',
                    contract_hash = PStr ''abc'', location = line_loc 10 ''function'',
                    reason = PStr ''guarded'', reported_by = PNone,
                    reported_at = PStr ''2024-01-01T00:00:00'', verified = PBool True \<rparr>"

definition demo_handler :: handler where
  "demo_handler = \<lparr> false_positives = [(PStr ''reentrancy:abc'', [demo_report])],
                     issue_patterns = learned ''reentrancy'' ''guarded'' ''function'' 1,
                     learning_data = [] \<rparr>"

definition demo_heap :: "nat \<Rightarrow> pyval" where
  "demo_heap a =
     (if a = 0 then PDict [(PStr ''type'', PStr ''reentrancy''),
                           (PStr ''location'', line_loc 10 ''function'')]
      else PDict [(PStr ''check'', PStr ''overflow''), (PStr ''lineNumber'', PInt 33)])"

definition demo_heap_after :: "nat \<Rightarrow> pyval" where
  "demo_heap_after a =
     (if a = 0 then PDict [(PStr ''type'', PStr ''reentrancy''),
                           (PStr ''location'', line_loc 10 ''function''),
                           (PStr ''suppressed'', PBool True),
                           (PStr ''suppression_reason'', PStr ''Known false positive'')]
      else demo_heap a)"

text \<open>
  A dictionary holds every key once: no key of the list is equal, as a key, to a later
  one.
\<close>

fun keys_distinct :: "(pyval \<times> 'v) list \<Rightarrow> bool" where
  "keys_distinct [] = True"
| "keys_distinct ((k, v) # d) = (list_all (\<lambda>kv. \<not> key_eq k (fst kv)) d \<and> keys_distinct d)"

text \<open>
  What \<open>json.loads(json.dumps(v))\<close> returns. \<open>json.dumps\<close> writes a key that is not a
  string as text: \<open>None\<close> as \<open>null\<close>, \<open>True\<close> and \<open>False\<close> as \<open>true\<close> and \<open>false\<close>, an
  integer in decimal. \<open>json.loads\<close> builds each dictionary pair by pair, so of two pairs
  with the same text as key the later value stays. Every other value comes back as it
  was. (A list or a dictionary is never a key.)
\<close>

fun show_nat :: "nat \<Rightarrow> string" where
  "show_nat n = (if n < 10 then [char_of (48 + n)]
                 else show_nat (n div 10) @ [char_of (48 + n mod 10)])"

declare show_nat.simps [simp del]

definition show_int :: "int \<Rightarrow> string" where
  "show_int i = (if i < 0 then CHR ''-'' # show_nat (nat (- i)) else show_nat (nat i))"

fun json_key :: "pyval \<Rightarrow> pyval" where
  "json_key PNone = PStr ''null''"
| "json_key (PBool b) = PStr (if b then ''true'' else ''false'')"
| "json_key (PInt i) = PStr (show_int i)"
| "json_key k = k"

definition dict_of_pairs :: "(pyval \<times> 'v) list \<Rightarrow> (pyval \<times> 'v) list" where
  "dict_of_pairs pairs = fold (\<lambda>kv d. pdict_set d (fst kv) (snd kv)) pairs []"

fun json_image :: "pyval \<Rightarrow> pyval" where
  "json_image (PList xs) = PList (map json_image xs)"
| "json_image (PDict d) = PDict (dict_of_pairs (map (\<lambda>(k, v). (json_key k, json_image v)) d))"
| "json_image v = v"

text \<open>
  A value in which every dictionary has strings as keys, each once: the values
  \<open>json.dumps\<close> and \<open>json.loads\<close> carry unchanged.
\<close>

fun json_clean :: "pyval \<Rightarrow> bool" where
  "json_clean (PList xs) = list_all json_clean xs"
| "json_clean (PDict d) =
     (list_all (\<lambda>(k, v). (case k of PStr s \<Rightarrow> True | _ \<Rightarrow> False) \<and> json_clean v) d \<and>
      keys_distinct d)"
| "json_clean v = True"

text \<open>
  Concrete data for the import and the export: a \<open>json.loads\<close> that reads the text as
  the document \<open>doc\<close> and a \<open>json.dumps\<close> that writes the document as \<open>text\<close>; a JSON
  text, with the document \<open>json.loads\<close> reads from it, whose second group of reports
  lacks four of the fields a report needs; a JSON text and its document with a report
  whose issue type is \<open>null\<close>; the handler that a fresh handler becomes by importing that
  text and verifying the report, and the JSON text of its export (without the line
  breaks of \<open>indent=2\<close>).
\<close>

definition parsed_as :: "pyval \<Rightarrow> string \<Rightarrow> pyerr + pyval" where
  "parsed_as doc json_data = Inr doc"

definition written_as :: "string \<Rightarrow> pyval \<Rightarrow> string" where
  "written_as text doc = text"

definition bad_text :: string where
  "bad_text = ''{\"false_positives\": {\"reentrancy:abc\": [], \"overflow:abc\": [{\"issue_id\": \"issue-2\"}]}}''"

definition bad_doc :: pyval where
  "bad_doc = PDict [(PStr ''false_positives'',
                     PDict [(PStr ''reentrancy:abc'', PList []),
                            (PStr ''overflow:abc'',
                             PList [PDict [(PStr ''issue_id'', PStr ''issue-2'')]])])]"

definition null_text :: string where
  "null_text = ''{\"false_positives\": {\"reentrancy:abc\": [{\"issue_id\": \"issue-9\", \"issue_type\": null, \"contract_hash\": \"abc\", \"location\": {\"line\": 10, \"type\": \"function\"}, \"reason\": \"guarded\"}]}}''"

definition null_doc :: pyval where
  "null_doc = PDict [(PStr ''false_positives'',
                      PDict [(PStr ''reentrancy:abc'',
                              PList [PDict [(PStr ''issue_id'', PStr ''issue-9''),
                                            (PStr ''issue_type'', PNone),
                                            (PStr ''contract_hash'', PStr ''abc''),
                                            (PStr ''location'', line_loc 10 ''function''),
                                            (PStr ''reason'', PStr ''guarded'')]])])]"

definition none_handler :: handler where
  "none_handler =
     \<lparr> false_positives =
         [(PStr ''reentrancy:abc'',
           [\<lparr> issue_id = PStr ''issue-9'', issue_type = PNone, contract_hash = PStr ''abc'',
              location = line_loc 10 ''function'', reason = PStr ''guarded'',
              reported_by = PNone, reported_at = PNone, verified = PBool True \<rparr>])],
       issue_patterns =
         PDict [(PNone,
                 PDict [(PStr ''false_positive_count'', PInt 1),
                        (PStr ''patterns'',
                         PList [PDict [(PStr ''reason'', PStr ''guarded''),
                                       (PStr ''location_type'', PStr ''function''),
                                       (PStr ''count'', PInt 1)]])])],
       learning_data = [] \<rparr>"

definition none_text :: string where
  "none_text = ''{\"false_positives\": {\"reentrancy:abc\": [{\"issue_id\": \"issue-9\", \"issue_type\": null, \"contract_hash\": \"abc\", \"location\": {\"line\": 10, \"type\": \"function\"}, \"reason\": \"guarded\", \"reported_by\": null, \"reported_at\": null, \"verified\": true}]}, \"learning_patterns\": {\"null\": {\"false_positive_count\": 1, \"patterns\": [{\"reason\": \"guarded\", \"location_type\": \"function\", \"count\": 1}]}}, \"exported_at\": \"2024-01-02T00:00:00\"}''"

section \<open>incremental_analyzer.py: merge_analysis_results\<close>

text \<open>
  The line of an issue:
  \<^verbatim>\<open>issue_line = issue.get('location', {}).get('line') or issue.get('lineNumber')\<close>
\<close>

definition issue_line :: "pyval \<Rightarrow> pyerr + pyval" where
  "issue_line issue =
     rbind (py_get issue ''location'' (PDict [])) (\<lambda>l.
     rbind (py_get l ''line'' PNone) (\<lambda>a.
       if py_truthy a then Inr a else py_get issue ''lineNumber'' PNone))"

text \<open>
  Whether an issue with a truthy line is kept:
  \<^verbatim>\<open>if issue_line in changed_lines:
    affected_issues.append(issue)
else:
    for changed_line in changed_lines:
        if abs(issue_line - changed_line) <= 20:
            affected_issues.append(issue)
            break\<close>
  The membership test hashes the line; the subtraction needs a number as soon as there is
  a changed line to compare with.
\<close>

definition near_change :: "int set \<Rightarrow> pyval \<Rightarrow> pyerr + bool" where
  "near_change changed_lines line =
     (if \<not> py_hashable line then Inl TypeError
      else case py_num line of
             Some i \<Rightarrow> Inr (i \<in> changed_lines \<or> (\<exists>c \<in> changed_lines. \<bar>i - c\<bar> \<le> 20))
           | None \<Rightarrow> if changed_lines = {} then Inr False else Inl TypeError)"

fun affected_loop :: "int set \<Rightarrow> pyval list \<Rightarrow> pyerr + pyval list" where
  "affected_loop changed_lines [] = Inr []"
| "affected_loop changed_lines (issue # issues) =
     rbind (issue_line issue) (\<lambda>line.
     rbind (if py_truthy line then near_change changed_lines line else Inr True) (\<lambda>keep.
     rbind (affected_loop changed_lines issues) (\<lambda>rest.
       Inr (if keep then issue # rest else rest))))"

definition filter_affected_issues :: "pyval \<Rightarrow> ChangeSet \<Rightarrow> pyerr + pyval list" where
  "filter_affected_issues issues changeset =
     (let changed_lines = added_lines changeset \<union> modified_lines changeset \<union> removed_lines changeset
      in rbind (py_iter issues) (affected_loop changed_lines))"

text \<open>
  \<open>list(set(xs))\<close>: every element is hashed, equal elements are kept once. The order in
  which a set is listed is not fixed by Python; the model lists first occurrences in
  order.
\<close>

fun dedup :: "pyval list \<Rightarrow> pyval list" where
  "dedup [] = []"
| "dedup (x # xs) = x # dedup (filter (\<lambda>y. \<not> key_eq x y) xs)"

definition list_of_set :: "pyval list \<Rightarrow> pyerr + pyval list" where
  "list_of_set xs = (if list_all py_hashable xs then Inr (dedup xs) else Inl TypeError)"

text \<open>\<open>list(set(cached + new_result.get(key, [])))\<close>\<close>

definition merge_lists :: "pyval list \<Rightarrow> pyval \<Rightarrow> string \<Rightarrow> pyerr + pyval list" where
  "merge_lists cached new_result key =
     rbind (py_get new_result key (PList [])) (\<lambda>fresh.
       case fresh of PList ys \<Rightarrow> list_of_set (cached @ ys) | _ \<Rightarrow> Inl TypeError)"

text \<open>\<open>sum(1 for v in vs if v.get("severity") == sev)\<close>\<close>

fun count_severity :: "pyval list \<Rightarrow> string \<Rightarrow> pyerr + int" where
  "count_severity [] sev = Inr 0"
| "count_severity (v # vs) sev =
     rbind (py_get v ''severity'' PNone) (\<lambda>s.
     rbind (count_severity vs sev) (\<lambda>n.
       Inr (if py_eq s (PStr sev) then n + 1 else n)))"

definition merge_analysis_results :: "pyval \<Rightarrow> pyval \<Rightarrow> ChangeSet \<Rightarrow> pyerr + pyval" where
  "merge_analysis_results cached_result new_result changeset =
     rbind (py_get cached_result ''vulnerabilities'' (PList [])) (\<lambda>cv.
     rbind (filter_affected_issues cv changeset) (\<lambda>cached_vulns.
     rbind (py_get cached_result ''gasOptimizations'' (PList [])) (\<lambda>cg.
     rbind (filter_affected_issues cg changeset) (\<lambda>cached_gas.
     rbind (py_get cached_result ''codeQuality'' (PList [])) (\<lambda>cq.
     rbind (filter_affected_issues cq changeset) (\<lambda>cached_quality.
     rbind (merge_lists cached_vulns new_result ''vulnerabilities'') (\<lambda>vulns.
     rbind (merge_lists cached_gas new_result ''gasOptimizations'') (\<lambda>gas.
     rbind (merge_lists cached_quality new_result ''codeQuality'') (\<lambda>quality.
     rbind (count_severity vulns ''HIGH'') (\<lambda>high.
     rbind (count_severity vulns ''MEDIUM'') (\<lambda>medium.
     rbind (count_severity vulns ''LOW'') (\<lambda>low.
     rbind (py_get new_result ''metadata'' (PDict [])) (\<lambda>metadata.
     rbind (py_setitem metadata (PStr ''incremental'') (PBool True)) (\<lambda>metadata1.
     rbind (py_setitem metadata1 (PStr ''changeset'')
              (PDict [(PStr ''added'', PInt (int (card (added_lines changeset)))),
                      (PStr ''modified'', PInt (int (card (modified_lines changeset)))),
                      (PStr ''removed'', PInt (int (card (removed_lines changeset))))])) (\<lambda>metadata2.
       Inr (PDict [(PStr ''summary'',
                    PDict [(PStr ''totalVulnerabilities'', PInt (int (length vulns))),
                           (PStr ''highSeverity'', PInt high),
                           (PStr ''mediumSeverity'', PInt medium),
                           (PStr ''lowSeverity'', PInt low),
                           (PStr ''gasOptimizations'', PInt (int (length gas))),
                           (PStr ''codeQualityIssues'', PInt (int (length quality)))]),
                   (PStr ''vulnerabilities'', PList vulns),
                   (PStr ''gasOptimizations'', PList gas),
                   (PStr ''codeQuality'', PList quality),
                   (PStr ''metadata'', metadata2)]))))))))))))))))"

text \<open>Concrete data: a change set without changes and a finding of a scanner.\<close>

definition no_changes :: ChangeSet where
  "no_changes = \<lparr> added_lines = {}, modified_lines = {}, removed_lines = {}, unchanged_regions = [(1, 40)] \<rparr>"

definition demo_finding :: pyval where
  "demo_finding = PDict [(PStr ''type'', PStr ''reentrancy''), (PStr ''severity'', PStr ''HIGH''),
                         (PStr ''location'', PDict [(PStr ''line'', PInt 12)]),
                         (PStr ''description'', PStr ''external call before state update'')]"

section \<open>Properties\<close>

subsection \<open>Topological order\<close>

text \<open>
  C3. The specification asks for a dependency-first order: for the import graph with the edges
  main \<rightarrow> lib1 and lib1 \<rightarrow> lib2 it expects [lib2, lib1, main]. The in-degrees are counted
  on the graph as given (the reverse graph that the comment of the source announces is
  never built), so the queue starts from the file nobody imports and the result lists
  every dependent before its dependencies: [main, lib1, lib2].
\<close>

theorem topological_sort_dependents_first:
  "topological_sort [(''main'', [''lib1'']), (''lib1'', [''lib2''])]
     = [''main'', ''lib1'', ''lib2'']"
  by (simp add: topological_sort_def count_incoming_def dict_keys_def dict_get_def relax_def)

subsection \<open>Change sets\<close>

lemma prefix_split:
  "{i. i < Suc m \<and> P i} = (if P m then insert m {i. i < m \<and> P i} else {i. i < m \<and> P i})"
  by (auto simp: less_Suc_eq)

lemma identify_changes_prefix:
  "fold (identify_step oh nh) [0..<m] ({}, {})
   = ((\<lambda>i. int i + 1) ` {i. i < m \<and> is_added oh nh i},
      (\<lambda>i. int i + 1) ` {i. i < m \<and> is_modified oh nh i})"
proof (induction m)
  case 0
  then show ?case by simp
next
  case (Suc m)
  have "fold (identify_step oh nh) [0..<Suc m] ({}, {})
          = identify_step oh nh m (fold (identify_step oh nh) [0..<m] ({}, {}))"
    by simp
  also have "\<dots> = identify_step oh nh m
        ((\<lambda>i. int i + 1) ` {i. i < m \<and> is_added oh nh i},
         (\<lambda>i. int i + 1) ` {i. i < m \<and> is_modified oh nh i})"
    by (simp only: Suc)
  also have "\<dots> = ((\<lambda>i. int i + 1) ` {i. i < Suc m \<and> is_added oh nh i},
      (\<lambda>i. int i + 1) ` {i. i < Suc m \<and> is_modified oh nh i})"
    by (simp add: prefix_split identify_step_def is_added_def is_modified_def Let_def)
  finally show ?case .
qed

lemma added_iff:
  "n \<in> fst (identify_changes oh nh) \<longleftrightarrow> (\<exists>i < length nh. n = int i + 1 \<and> is_added oh nh i)"
  unfolding identify_changes_def identify_changes_prefix by auto

lemma modified_iff:
  "n \<in> snd (identify_changes oh nh) \<longleftrightarrow> (\<exists>i < length nh. n = int i + 1 \<and> is_modified oh nh i)"
  unfolding identify_changes_def identify_changes_prefix by auto

lemma find_removed_prefix:
  "fold (removed_step oh nh) [0..<m] {}
   = (\<lambda>i. int i + 1) ` {i. i < m \<and> (i \<ge> length nh \<or> oh ! i \<notin> set nh)}"
proof (induction m)
  case 0
  then show ?case by simp
next
  case (Suc m)
  have "fold (removed_step oh nh) [0..<Suc m] {}
          = removed_step oh nh m (fold (removed_step oh nh) [0..<m] {})"
    by simp
  also have "\<dots> = removed_step oh nh m
       ((\<lambda>i. int i + 1) ` {i. i < m \<and> (i \<ge> length nh \<or> oh ! i \<notin> set nh)})"
    by (simp only: Suc)
  also have "\<dots> = (\<lambda>i. int i + 1) ` {i. i < Suc m \<and> (i \<ge> length nh \<or> oh ! i \<notin> set nh)}"
    by (simp add: prefix_split removed_step_def Let_def)
  finally show ?case .
qed

lemma removed_iff:
  "n \<in> find_removed oh nh \<longleftrightarrow>
     (\<exists>i < length oh. n = int i + 1 \<and> (i \<ge> length nh \<or> oh ! i \<notin> set nh))"
  unfolding find_removed_def find_removed_prefix by auto

lemma removed_line_iff:
  "int i + 1 \<in> find_removed oh nh \<longleftrightarrow> i < length oh \<and> (i \<ge> length nh \<or> oh ! i \<notin> set nh)"
  by (auto simp: removed_iff)

lemma region_starts_iff:
  "i < length oh \<Longrightarrow> region_starts oh nh (find_removed oh nh) i \<longleftrightarrow> same_at oh nh i"
  by (auto simp: region_starts_def removed_line_iff same_at_def) (metis nth_mem)

lemma extend_region_lt: "i < length oh \<Longrightarrow> extend_region oh nh r i < length oh"
  by (induction oh nh r i rule: extend_region.induct)
     (subst extend_region.simps, auto simp: region_extends_def)

lemma extend_region_between:
  "i < k \<Longrightarrow> k \<le> extend_region oh nh r i \<Longrightarrow> k \<ge> length nh \<or> nh ! k = oh ! k"
proof (induction oh nh r i rule: extend_region.induct)
  case (1 oh nh r i)
  show ?case
  proof (cases "region_extends oh nh r i")
    case True
    with "1.prems" have le: "k \<le> extend_region oh nh r (i + 1)"
      by (subst (asm) extend_region.simps) simp
    show ?thesis
    proof (cases "k = i + 1")
      case True
      with \<open>region_extends oh nh r i\<close> show ?thesis by (auto simp: region_extends_def)
    next
      case False
      with "1.prems" have "i + 1 < k" by simp
      from "1.IH"[OF True this le] show ?thesis .
    qed
  next
    case False
    with "1.prems" show ?thesis by (subst (asm) extend_region.simps) simp
  qed
qed

lemma unchanged_loop_acc:
  "unchanged_loop oh nh r i acc = acc @ unchanged_loop oh nh r i []"
proof (induction "length oh - i" arbitrary: i acc rule: less_induct)
  case less
  note unf = unchanged_loop.simps[of oh nh r i]
  show ?case
  proof (cases "i < length oh")
    case False
    then show ?thesis by (simp add: unf)
  next
    case True
    show ?thesis
    proof (cases "region_starts oh nh r i")
      case False
      from True have dec: "length oh - (i + 1) < length oh - i" by simp
      have "unchanged_loop oh nh r i acc = unchanged_loop oh nh r (i + 1) acc"
        using True False by (simp add: unf)
      also have "\<dots> = acc @ unchanged_loop oh nh r (i + 1) []"
        by (rule less[OF dec])
      also have "unchanged_loop oh nh r (i + 1) [] = unchanged_loop oh nh r i []"
        using True False by (simp add: unf)
      finally show ?thesis .
    next
      case st: True
      let ?j = "extend_region oh nh r i"
      let ?x = "(int i + 1, int ?j + 1)"
      have ge: "i \<le> ?j" by (rule extend_region_ge)
      with True have dec: "length oh - (?j + 1) < length oh - i" by simp
      have "unchanged_loop oh nh r i acc = unchanged_loop oh nh r (?j + 1) (acc @ [?x])"
        using True st ge by (simp add: unf Let_def)
      also have "\<dots> = (acc @ [?x]) @ unchanged_loop oh nh r (?j + 1) []"
        by (rule less[OF dec])
      also have "\<dots> = acc @ ([?x] @ unchanged_loop oh nh r (?j + 1) [])"
        by simp
      also have "[?x] @ unchanged_loop oh nh r (?j + 1) [] = unchanged_loop oh nh r (?j + 1) [?x]"
        by (rule less[OF dec, symmetric])
      also have "\<dots> = unchanged_loop oh nh r i []"
        using True st ge by (simp add: unf Let_def)
      finally show ?thesis .
    qed
  qed
qed

lemma unchanged_loop_start:
  "i < length oh \<Longrightarrow> region_starts oh nh r i \<Longrightarrow>
   unchanged_loop oh nh r i [] =
     (int i + 1, int (extend_region oh nh r i) + 1)
       # unchanged_loop oh nh r (extend_region oh nh r i + 1) []"
  using extend_region_ge[of i oh nh r]
    unchanged_loop_acc[of oh nh r "extend_region oh nh r i + 1"
                          "[(int i + 1, int (extend_region oh nh r i) + 1)]"]
  by (simp add: unchanged_loop.simps[of oh nh r i] Let_def)

lemma unchanged_loop_skip:
  "i < length oh \<Longrightarrow> \<not> region_starts oh nh r i \<Longrightarrow>
   unchanged_loop oh nh r i [] = unchanged_loop oh nh r (i + 1) []"
  by (simp add: unchanged_loop.simps[of oh nh r i])

lemma unchanged_loop_done:
  "\<not> i < length oh \<Longrightarrow> unchanged_loop oh nh r i [] = []"
  by (simp add: unchanged_loop.simps[of oh nh r i])

lemma count_cover_Nil: "count_cover n [] = 0"
  by (simp add: count_cover_def)

lemma count_cover_Cons:
  "count_cover n ((s, e) # rs) = (if s \<le> n \<and> n \<le> e then 1 else 0) + count_cover n rs"
  by (simp add: count_cover_def covers_def)

lemma count_cover_unchanged:
  assumes k: "k < length nh"
  shows "count_cover (int k + 1) (unchanged_loop oh nh (find_removed oh nh) i [])
           = (if i \<le> k \<and> same_at oh nh k then 1 else 0)"
proof (induction "length oh - i" arbitrary: i rule: less_induct)
  case less
  let ?r = "find_removed oh nh"
  show ?case
  proof (cases "i < length oh")
    case False
    then show ?thesis
      by (auto simp: unchanged_loop_done count_cover_Nil same_at_def)
  next
    case True
    show ?thesis
    proof (cases "region_starts oh nh ?r i")
      case False
      with True have ns: "\<not> same_at oh nh i" by (simp add: region_starts_iff)
      have "i \<le> k \<and> same_at oh nh k \<longleftrightarrow> i + 1 \<le> k \<and> same_at oh nh k"
        using ns by (cases "k = i") auto
      with True False less[of "i + 1"] show ?thesis
        by (simp add: unchanged_loop_skip)
    next
      case st: True
      let ?j = "extend_region oh nh ?r i"
      have ge: "i \<le> ?j" by (rule extend_region_ge)
      have lt: "?j < length oh" using True by (rule extend_region_lt)
      from True ge have dec: "length oh - (?j + 1) < length oh - i" by simp
      have si: "same_at oh nh i" using st True by (simp add: region_starts_iff)
      have inside: "same_at oh nh k" if "i \<le> k" "k \<le> ?j"
      proof (cases "k = i")
        case True
        with si show ?thesis by simp
      next
        case False
        with that have "i < k" by simp
        from extend_region_between[OF this that(2)] k lt that(2)
        show ?thesis by (auto simp: same_at_def)
      qed
      have "count_cover (int k + 1) (unchanged_loop oh nh ?r i [])
              = (if i \<le> k \<and> k \<le> ?j then 1 else 0)
                + (if ?j + 1 \<le> k \<and> same_at oh nh k then 1 else 0)"
        unfolding unchanged_loop_start[OF True st] count_cover_Cons less[OF dec] by simp
      also have "\<dots> = (if i \<le> k \<and> same_at oh nh k then 1 else 0)"
      proof (cases "i \<le> k \<and> k \<le> ?j")
        case True
        then have "same_at oh nh k" using inside by simp
        with True show ?thesis by simp
      next
        case False
        then have "k < i \<or> ?j + 1 \<le> k" by linarith
        then show ?thesis using ge False by auto
      qed
      finally show ?thesis .
    qed
  qed
qed

lemma exactly_one_class:
  "k < length nh \<Longrightarrow>
     (is_added oh nh k \<and> \<not> is_modified oh nh k \<and> \<not> same_at oh nh k) \<or>
     (\<not> is_added oh nh k \<and> is_modified oh nh k \<and> \<not> same_at oh nh k) \<or>
     (\<not> is_added oh nh k \<and> \<not> is_modified oh nh k \<and> same_at oh nh k)"
  by (auto simp: is_added_def is_modified_def same_at_def)

lemma split_nl_nonempty: "split_nl s \<noteq> []"
  by (induction s) (auto split: list.splits)

lemma changeset_added:
  "added_lines (compute_changeset md5 old_code new_code)
     = fst (identify_changes (map md5 (split_nl old_code)) (map md5 (split_nl new_code)))"
  by (simp add: compute_changeset_def Let_def split: prod.split)

lemma changeset_modified:
  "modified_lines (compute_changeset md5 old_code new_code)
     = snd (identify_changes (map md5 (split_nl old_code)) (map md5 (split_nl new_code)))"
  by (simp add: compute_changeset_def Let_def split: prod.split)

lemma changeset_removed:
  "removed_lines (compute_changeset md5 old_code new_code)
     = find_removed (map md5 (split_nl old_code)) (map md5 (split_nl new_code))"
  by (simp add: compute_changeset_def Let_def split: prod.split)

lemma changeset_unchanged:
  "unchanged_regions (compute_changeset md5 old_code new_code)
     = unchanged_loop (map md5 (split_nl old_code)) (map md5 (split_nl new_code))
         (find_removed (map md5 (split_nl old_code)) (map md5 (split_nl new_code))) 0 []"
  by (simp add: compute_changeset_def Let_def split: prod.split)

lemma line_added_iff:
  "int k + 1 \<in> fst (identify_changes oh nh) \<longleftrightarrow> k < length nh \<and> is_added oh nh k"
  by (auto simp: added_iff)

lemma line_modified_iff:
  "int k + 1 \<in> snd (identify_changes oh nh) \<longleftrightarrow> k < length nh \<and> is_modified oh nh k"
  by (auto simp: modified_iff)

lemma added_modified_disjoint:
  "fst (identify_changes oh nh) \<inter> snd (identify_changes oh nh) = {}"
  by (auto simp: added_iff modified_iff is_added_def is_modified_def)

lemma modified_removed_disjoint:
  "snd (identify_changes oh nh) \<inter> find_removed oh nh = {}"
  by (auto simp: modified_iff removed_iff is_modified_def)

lemma new_line_once:
  assumes "1 \<le> n" "n \<le> int (length nh)"
  shows "(if n \<in> fst (identify_changes oh nh) then 1 else 0)
         + (if n \<in> snd (identify_changes oh nh) then 1 else 0)
         + count_cover n (unchanged_loop oh nh (find_removed oh nh) 0 []) = (1::nat)"
proof -
  define k where "k = nat (n - 1)"
  from assms have k: "n = int k + 1" "k < length nh"
    by (auto simp: k_def)
  show ?thesis
    using exactly_one_class[OF k(2), of oh] k(2)
    by (auto simp: k(1) line_added_iff line_modified_iff count_cover_unchanged)
qed

text \<open>
  C2 (as amended). For every pair of old and new contents, \<open>added_lines\<close> and
  \<open>modified_lines\<close> are disjoint, \<open>modified_lines\<close> and \<open>removed_lines\<close> are disjoint,
  and every line number of the new revision is in exactly one of \<open>added_lines\<close>,
  \<open>modified_lines\<close> or one unchanged region. (\<open>added_lines\<close> numbers lines of the new
  revision and \<open>removed_lines\<close> lines of the old one: the two can share a number.)
\<close>

theorem compute_changeset_partition:
  "let cs = compute_changeset md5 old_code new_code in
     added_lines cs \<inter> modified_lines cs = {} \<and>
     modified_lines cs \<inter> removed_lines cs = {} \<and>
     (\<forall>n. 1 \<le> n \<and> n \<le> int (length (split_nl new_code)) \<longrightarrow>
        (if n \<in> added_lines cs then 1 else 0)
        + (if n \<in> modified_lines cs then 1 else 0)
        + count_cover n (unchanged_regions cs) = (1::nat))"
  unfolding Let_def changeset_added changeset_modified changeset_removed changeset_unchanged
  using new_line_once[of _ "map md5 (split_nl new_code)" "map md5 (split_nl old_code)"]
  by (simp add: added_modified_disjoint modified_removed_disjoint)

theorem compute_changeset_partition_witness:
  "((1::int) \<le> 2 \<and> 2 \<le> int (length (split_nl [CHR ''a'', CHR 0x0A, CHR ''c'']))) \<and>
   (if 2 \<in> added_lines (compute_changeset id [CHR ''a'', CHR 0x0A, CHR ''b'']
                                              [CHR ''a'', CHR 0x0A, CHR ''c'']) then 1 else 0)
   + (if 2 \<in> modified_lines (compute_changeset id [CHR ''a'', CHR 0x0A, CHR ''b'']
                                                  [CHR ''a'', CHR 0x0A, CHR ''c'']) then 1 else 0)
   + count_cover 2 (unchanged_regions (compute_changeset id [CHR ''a'', CHR 0x0A, CHR ''b'']
                                                            [CHR ''a'', CHR 0x0A, CHR ''c'']))
   = (1::nat)"
proof -
  have range: "(1::int) \<le> 2 \<and> 2 \<le> int (length (split_nl [CHR ''a'', CHR 0x0A, CHR ''c'']))"
    by simp
  note part = compute_changeset_partition[of id "[CHR ''a'', CHR 0x0A, CHR ''b'']"
                  "[CHR ''a'', CHR 0x0A, CHR ''c'']", unfolded Let_def]
  from range part[THEN conjunct2, THEN conjunct2, THEN spec, of 2]
  show ?thesis by blast
qed

text \<open>
  C2 as stated fails: a line replaced in place is both added (as line 1 of the new
  revision) and removed (as line 1 of the old one).
\<close>

theorem added_removed_overlap:
  "added_lines (compute_changeset id ''a'' ''b'') \<inter> removed_lines (compute_changeset id ''a'' ''b'')
     \<noteq> {}"
  by (simp add: compute_changeset_def identify_changes_def identify_step_def find_removed_def
      removed_step_def Let_def)

lemma identify_changes_same: "identify_changes hs hs = ({}, {})"
proof -
  have "fst (identify_changes hs hs) = {}"
    by (auto simp: added_iff is_added_def)
  moreover have "snd (identify_changes hs hs) = {}"
    by (auto simp: modified_iff is_modified_def)
  ultimately show ?thesis by (simp add: prod_eq_iff)
qed

lemma find_removed_same: "find_removed hs hs = {}"
  by (auto simp: removed_iff)

lemma extend_region_same_gen:
  "oh = nh \<Longrightarrow> r = {} \<Longrightarrow> i < length oh \<Longrightarrow> extend_region oh nh r i = length oh - 1"
proof (induction oh nh r i rule: extend_region.induct)
  case (1 oh nh r i)
  show ?case
  proof (cases "i + 1 < length oh")
    case True
    with "1.prems" have "region_extends oh nh r i" by (simp add: region_extends_def)
    with "1.IH"[OF this "1.prems"(1,2) True] show ?thesis
      by (simp add: extend_region.simps[of oh nh r i])
  next
    case False
    then have "\<not> region_extends oh nh r i" by (simp add: region_extends_def)
    then have "extend_region oh nh r i = i"
      by (simp add: extend_region.simps[of oh nh r i])
    with False "1.prems" show ?thesis by simp
  qed
qed

lemma unchanged_loop_same:
  assumes "hs \<noteq> []"
  shows "unchanged_loop hs hs {} 0 [] = [(1, int (length hs))]"
proof -
  from assms have pos: "0 < length hs" by simp
  have st: "region_starts hs hs {} 0" by (simp add: region_starts_def)
  have ext: "extend_region hs hs {} 0 = length hs - 1"
    using pos by (simp add: extend_region_same_gen)
  have len: "int (length hs - 1) + 1 = int (length hs)"
    using assms by (cases hs) auto
  have nxt: "length hs - 1 + 1 = length hs" using pos by simp
  show ?thesis
    unfolding unchanged_loop_start[OF pos st] ext nxt
    using len by (simp add: unchanged_loop_done)
qed

lemma compute_changeset_same:
  "compute_changeset md5 code code =
     \<lparr> added_lines = {}, modified_lines = {}, removed_lines = {},
       unchanged_regions = [(1, int (length (split_nl code)))] \<rparr>"
  by (simp add: compute_changeset_def identify_changes_same find_removed_same
        unchanged_loop_same split_nl_nonempty)

lemma empty_old_added_tail:
  "{2..int (length nh)} \<subseteq> fst (identify_changes [e] nh)"
proof
  fix n assume "n \<in> {2..int (length nh)}"
  then have "n = int (nat (n - 1)) + 1" "nat (n - 1) < length nh" "\<not> nat (n - 1) < 1"
    by auto
  then show "n \<in> fst (identify_changes [e] nh)"
    unfolding added_iff is_added_def by (intro exI[of _ "nat (n - 1)"]) simp
qed

lemma empty_old_modified: "snd (identify_changes [e] nh) \<subseteq> {1}"
  by (auto simp: modified_iff is_modified_def)

lemma empty_old_all_added:
  assumes "e \<notin> set nh"
  shows "fst (identify_changes [e] nh) = {1..int (length nh)}"
    and "snd (identify_changes [e] nh) = {}"
proof -
  have "is_added [e] nh i" if "i < length nh" for i
    using assms that by (auto simp: is_added_def)
  then have "fst (identify_changes [e] nh) = (\<lambda>i. int i + 1) ` {i. i < length nh}"
    by (auto simp: added_iff)
  also have "\<dots> = {1..int (length nh)}"
  proof (intro set_eqI iffI)
    fix n assume "n \<in> {1..int (length nh)}"
    then have "n = int (nat (n - 1)) + 1" "nat (n - 1) < length nh" by auto
    then show "n \<in> (\<lambda>i. int i + 1) ` {i. i < length nh}" by blast
  qed auto
  finally show "fst (identify_changes [e] nh) = {1..int (length nh)}" .
  show "snd (identify_changes [e] nh) = {}"
    using assms by (auto simp: modified_iff is_modified_def)
qed

text \<open>
  C9 (as amended). With an empty old content, every line of the new content from the
  second on is added and only line 1 can be modified; when no line of the new content has
  the digest of the empty line, every line is added and none is modified. With identical
  contents the three sets are empty and one unchanged region spans all lines.
\<close>

theorem compute_changeset_edge_cases:
  "(let cs = compute_changeset md5 [] new_code; n = int (length (split_nl new_code)) in
      {2..n} \<subseteq> added_lines cs \<and> modified_lines cs \<subseteq> {1} \<and>
      (md5 [] \<notin> set (map md5 (split_nl new_code)) \<longrightarrow>
         added_lines cs = {1..n} \<and> modified_lines cs = {})) \<and>
   compute_changeset md5 code code =
     \<lparr> added_lines = {}, modified_lines = {}, removed_lines = {},
       unchanged_regions = [(1, int (length (split_nl code)))] \<rparr>"
  unfolding Let_def changeset_added changeset_modified
  using empty_old_added_tail[of "map md5 (split_nl new_code)" "md5 []"]
        empty_old_modified[of "md5 []" "map md5 (split_nl new_code)"]
        empty_old_all_added[of "md5 []" "map md5 (split_nl new_code)"]
  by (simp add: compute_changeset_same)

theorem compute_changeset_edge_cases_witness:
  "id [] \<notin> set (map id (split_nl ''a'')) \<and>
   added_lines (compute_changeset id [] ''a'') = {1..int (length (split_nl ''a''))} \<and>
   modified_lines (compute_changeset id [] ''a'') = {}"
proof -
  have pre: "id [] \<notin> set (map id (split_nl ''a''))"
    by simp
  note edge = compute_changeset_edge_cases[of id "''a''" "''a''", unfolded Let_def]
  from pre edge[THEN conjunct1, THEN conjunct2, THEN conjunct2]
  show ?thesis by blast
qed

text \<open>
  C9 as stated fails: the empty old content is one empty line, so for a new content that
  ends with a newline line 1 is classified as modified, not as added.
\<close>

theorem empty_old_not_all_added:
  "compute_changeset id [] [CHR ''a'', CHR 0x0A] =
     \<lparr> added_lines = {2}, modified_lines = {1}, removed_lines = {}, unchanged_regions = [] \<rparr>"
  by (simp add: compute_changeset_def identify_changes_def identify_step_def find_removed_def
      removed_step_def Let_def unchanged_loop.simps[of _ _ _ 0] unchanged_loop.simps[of _ _ _ 1]
      unchanged_loop.simps[of _ _ _ "Suc 0"] region_starts_def)

subsection \<open>The false-positive handler\<close>

lemma key_eq_str_right [simp]: "key_eq k (PStr a) \<longleftrightarrow> k = PStr a"
  by (cases k) auto

lemma pdict_lookup_set_str:
  "pdict_lookup (pdict_set d (PStr a) v) (PStr b) = (if a = b then Some v else pdict_lookup d (PStr b))"
  by (induction d) auto

lemma location_matches_lines:
  "location_matches (line_loc L K) (line_loc L' K') = Inr (L \<noteq> 0 \<and> L' \<noteq> 0 \<and> L = L')"
  by (auto simp: location_matches_def line_loc_def py_get_def rbind_def py_or_def)

lemma first_match_good:
  assumes "list_all (good_report T R K) rs"
      and "\<exists>r \<in> set rs. location r = line_loc L K" and "L \<noteq> 0"
  shows "\<exists>i < length rs. first_match rs (line_loc L K) = Inr (Some i)"
  using assms
proof (induction rs)
  case Nil
  then show ?case by simp
next
  case (Cons r rs)
  from Cons.prems(1) obtain L' where L': "L' \<noteq> 0" "location r = line_loc L' K"
    by (auto simp: good_report_def)
  show ?case
  proof (cases "L' = L")
    case True
    with L' Cons.prems(3) show ?thesis
      by (simp add: location_matches_lines rbind_def)
  next
    case False
    with L' Cons.prems(2) have "\<exists>r \<in> set rs. location r = line_loc L K"
      by (auto simp: line_loc_def)
    with Cons.IH Cons.prems obtain i where "i < length rs" "first_match rs (line_loc L K) = Inr (Some i)"
      by auto
    with False L' show ?thesis
      by (auto simp: location_matches_lines rbind_def)
  qed
qed

lemma update_patterns_learned:
  assumes "good_report T R K r"
  shows "update_patterns (learned T R K n) r = (learned T R K (Suc n), Inr ())"
proof -
  from assms obtain L where r: "issue_type r = PStr T" "reason r = PStr R" "location r = line_loc L K"
    by (auto simp: good_report_def)
  show ?thesis
  proof (cases "n = 0")
    case True
    then show ?thesis
      by (simp add: update_patterns_def learned_def r py_contains_def py_setitem_def new_entry_def
            bump_count_def rbind_def py_getitem_def py_add1_def line_loc_def py_get_def
            record_pattern_def py_iter_def py_append_def)
  next
    case False
    then show ?thesis
      by (simp add: update_patterns_def learned_def r py_contains_def py_setitem_def new_entry_def
            bump_count_def rbind_def py_getitem_def py_add1_def line_loc_def py_get_def
            record_pattern_def py_iter_def py_append_def)
  qed
qed

lemma inv_init: "inv_handler fmt T R K {} 0 init_handler"
  by (simp add: inv_handler_def init_handler_def learned_def)

lemma list_all_pdict_set_str:
  "list_all P d \<Longrightarrow> P (PStr a, v) \<Longrightarrow> list_all P (pdict_set d (PStr a) v)"
  by (induction d) auto

lemma pdict_lookup_all:
  "list_all P d \<Longrightarrow> pdict_lookup d k = Some v \<Longrightarrow> \<exists>k'. P (k', v)"
  by (induction d) (auto split: if_splits)

lemma inv_mono: "inv_handler fmt T R K H n st \<Longrightarrow> H \<subseteq> H' \<Longrightarrow> inv_handler fmt T R K H' n st"
  unfolding inv_handler_def by (fastforce simp: list_all_iff)

lemma inv_lookup:
  assumes "inv_handler fmt T R K H n st"
      and "pdict_lookup (false_positives st) k = Some rs"
  shows "list_all (good_report T R K) rs"
  using pdict_lookup_all[OF assms(1)[unfolded inv_handler_def, THEN conjunct2] assms(2)]
  by auto

lemma report_step:
  assumes inv: "inv_handler fmt T R K H n st" and L: "L \<noteq> 0"
  shows "\<exists>st' rs. report_false_positive fmt now st iid (PStr T) h (line_loc L K) (PStr R) who
                     = (st', Inr True)
           \<and> inv_handler fmt T R K (insert h H) n st'
           \<and> pdict_lookup (false_positives st') (report_key fmt (PStr T) h) = Some rs
           \<and> (\<exists>r \<in> set rs. location r = line_loc L K)"
proof -
  define key where "key = report_key fmt (PStr T) h"
  define report where "report = \<lparr> issue_id = iid, issue_type = PStr T, contract_hash = PStr h,
                      location = line_loc L K, reason = PStr R, reported_by = who,
                      reported_at = PStr now, verified = PBool False \<rparr>"
  define old where "old = (case pdict_lookup (false_positives st) key of None \<Rightarrow> [] | Some rs \<Rightarrow> rs)"
  have good: "good_report T R K report"
    using L by (auto simp: good_report_def report_def)
  have old_good: "list_all (good_report T R K) old"
    using inv_lookup[OF inv] by (auto simp: old_def split: option.splits)
  have keyS: "key = PStr (fmt (PStr T) @ '':'' @ h)"
    by (simp add: key_def report_key_def)
  have inv': "inv_handler fmt T R K (insert h H) n st"
    using inv by (rule inv_mono) auto
  let ?st' = "st\<lparr> false_positives := pdict_set (false_positives st) key (old @ [report]) \<rparr>"
  have "list_all (\<lambda>kv. (\<exists>h \<in> insert h H. fst kv = report_key fmt (PStr T) h) \<and>
                      list_all (good_report T R K) (snd kv))
          (pdict_set (false_positives st) key (old @ [report]))"
    unfolding keyS
    apply (rule list_all_pdict_set_str)
    using inv' apply (simp add: inv_handler_def)
    using good old_good apply (simp add: report_key_def)
    done
  then have i2: "inv_handler fmt T R K (insert h H) n
       (?st'\<lparr>learning_data := ld\<rparr>)" for ld
    using inv by (simp add: inv_handler_def)
  have lk: "pdict_lookup (pdict_set (false_positives st) key (old @ [report])) key = Some (old @ [report])"
    unfolding keyS by (simp add: pdict_lookup_set_str)
  show ?thesis
    unfolding report_false_positive_def Let_def
    apply (simp add: key_def[symmetric] report_def[symmetric] old_def[symmetric])
    apply (intro conjI)
      apply (rule i2)
     apply (rule exI[of _ "old @ [report]"])
    apply (simp add: lk)
    apply (simp add: report_def)
    done
qed

lemma pdict_lookup_str_mem: "pdict_lookup d (PStr a) = Some v \<Longrightarrow> (PStr a, v) \<in> set d"
  by (induction d) (auto split: if_splits)

lemma good_report_verified:
  "good_report T R K r \<Longrightarrow> good_report T R K (r\<lparr> verified := v \<rparr>)"
  by (simp add: good_report_def)

lemma list_all_update:
  "list_all P xs \<Longrightarrow> P x \<Longrightarrow> list_all P (xs[i := x])"
  by (induction xs arbitrary: i) (auto split: nat.splits)

lemma verify_step:
  assumes inv: "inv_handler fmt T R K H n st"
      and lk: "pdict_lookup (false_positives st) (report_key fmt (PStr T) h) = Some rs"
      and ex: "\<exists>r \<in> set rs. location r = line_loc L K" and L: "L \<noteq> 0"
  shows "\<exists>st'. verify_false_positive fmt st (PStr T) h (line_loc L K) = (st', Inr True)
           \<and> inv_handler fmt T R K H (Suc n) st'"
proof -
  define key where "key = report_key fmt (PStr T) h"
  have keyS: "key = PStr (fmt (PStr T) @ '':'' @ h)"
    by (simp add: key_def report_key_def)
  from lk have lk': "pdict_lookup (false_positives st) key = Some rs" by (simp add: key_def)
  have all: "list_all (\<lambda>kv. (\<exists>h \<in> H. fst kv = report_key fmt (PStr T) h) \<and>
                      list_all (good_report T R K) (snd kv)) (false_positives st)"
    using inv by (simp add: inv_handler_def)
  from lk' have "(key, rs) \<in> set (false_positives st)"
    unfolding keyS by (rule pdict_lookup_str_mem)
  with all have "(\<exists>h \<in> H. fst (key, rs) = report_key fmt (PStr T) h) \<and>
                      list_all (good_report T R K) (snd (key, rs))"
    unfolding list_all_iff by blast
  then have keyH: "\<exists>h \<in> H. key = report_key fmt (PStr T) h"
    and good: "list_all (good_report T R K) rs"
    by simp_all
  from first_match_good[OF good ex L] obtain i
    where i: "i < length rs" "first_match rs (line_loc L K) = Inr (Some i)" by blast
  define report where "report = (rs ! i)\<lparr> verified := PBool True \<rparr>"
  from good i(1) have "good_report T R K (rs ! i)" by (simp add: list_all_length)
  then have gr: "good_report T R K report"
    unfolding report_def by (rule good_report_verified)
  define fps where "fps = pdict_set (false_positives st) key (rs[i := report])"
  have all': "list_all (\<lambda>kv. (\<exists>h \<in> H. fst kv = report_key fmt (PStr T) h) \<and>
                      list_all (good_report T R K) (snd kv)) fps"
  proof -
    have Pk: "(\<exists>h \<in> H. fst (key, rs[i := report]) = report_key fmt (PStr T) h) \<and>
              list_all (good_report T R K) (snd (key, rs[i := report]))"
      using keyH good gr by (simp add: list_all_update)
    show ?thesis
      unfolding fps_def keyS by (rule list_all_pdict_set_str[OF all Pk[unfolded keyS]])
  qed
  have upd: "update_learning_pattern (st\<lparr> false_positives := fps \<rparr>) report
               = (st\<lparr> false_positives := fps, issue_patterns := learned T R K (Suc n) \<rparr>, Inr ())"
    using inv update_patterns_learned[OF gr, of n]
    by (simp add: update_learning_pattern_def inv_handler_def)
  have "verify_false_positive fmt st (PStr T) h (line_loc L K)
          = (st\<lparr> false_positives := fps, issue_patterns := learned T R K (Suc n) \<rparr>, Inr True)"
    unfolding verify_false_positive_def Let_def
    by (simp add: key_def[symmetric] lk' i(2) report_def[symmetric] fps_def[symmetric] upd)
  moreover have "inv_handler fmt T R K H (Suc n)
                   (st\<lparr> false_positives := fps, issue_patterns := learned T R K (Suc n) \<rparr>)"
    using all' by (simp add: inv_handler_def)
  ultimately show ?thesis by blast
qed

lemma pdict_lookup_none:
  "list_all (\<lambda>kv. fst kv \<noteq> PStr a) d \<Longrightarrow> pdict_lookup d (PStr a) = None"
  by (induction d) auto

lemma suppress_step:
  assumes inv: "inv_handler fmt T R K H n st" and h: "h' \<notin> H"
      and ty: "py_get loc' ''type'' PNone = Inr (PStr K)"
  shows "should_suppress_issue fmt st (PStr T) h' loc' default_threshold = Inr (3 \<le> n)"
proof -
  have "list_all (\<lambda>kv. fst kv \<noteq> report_key fmt (PStr T) h') (false_positives st)"
    using inv h unfolding inv_handler_def list_all_iff
    by (auto simp: report_key_def)
  then have "pdict_lookup (false_positives st) (report_key fmt (PStr T) h') = None"
    unfolding report_key_def by (rule pdict_lookup_none)
  then have nfp: "is_false_positive fmt st (PStr T) h' loc' = Inr False"
    by (simp add: is_false_positive_def)
  have ip: "issue_patterns st = learned T R K n"
    using inv by (simp add: inv_handler_def)
  show ?thesis
  proof (cases "n = 0")
    case True
    then show ?thesis
      by (simp add: should_suppress_issue_def nfp rbind_def ip learned_def py_contains_def)
  next
    case False
    then show ?thesis
      by (simp add: should_suppress_issue_def nfp rbind_def ip learned_def py_contains_def
            py_getitem_def py_get_def py_ge_def ty[unfolded py_get_def] py_iter_def py_truediv_def
            default_threshold_def)
  qed
qed

text \<open>
  C5. From a fresh handler, after two reports of type \<open>T\<close> with the same reason and the
  same location kind have been reported and verified, \<open>should_suppress_issue\<close> at the
  default threshold returns false for an issue of type \<open>T\<close> and that location kind on
  another unit fingerprint; after a third such report has been reported and verified it
  returns true. Every one of the calls returns normally.
\<close>

theorem suppression_threshold:
  assumes "L1 \<noteq> 0" "L2 \<noteq> 0" "L3 \<noteq> 0" "h' \<notin> {h1, h2, h3}"
      and "py_get loc' ''type'' PNone = Inr (PStr K)"
  shows "let r1 = report_false_positive fmt n1 init_handler i1 (PStr T) h1 (line_loc L1 K) (PStr R) w1;
             v1 = verify_false_positive fmt (fst r1) (PStr T) h1 (line_loc L1 K);
             r2 = report_false_positive fmt n2 (fst v1) i2 (PStr T) h2 (line_loc L2 K) (PStr R) w2;
             v2 = verify_false_positive fmt (fst r2) (PStr T) h2 (line_loc L2 K);
             r3 = report_false_positive fmt n3 (fst v2) i3 (PStr T) h3 (line_loc L3 K) (PStr R) w3;
             v3 = verify_false_positive fmt (fst r3) (PStr T) h3 (line_loc L3 K)
         in snd r1 = Inr True \<and> snd v1 = Inr True \<and> snd r2 = Inr True \<and> snd v2 = Inr True \<and>
            should_suppress_issue fmt (fst v2) (PStr T) h' loc' default_threshold = Inr False \<and>
            snd r3 = Inr True \<and> snd v3 = Inr True \<and>
            should_suppress_issue fmt (fst v3) (PStr T) h' loc' default_threshold = Inr True"
proof -
  note i0 = inv_init[of fmt T R K]
  from report_step[OF i0 assms(1), of n1 i1 h1 w1] obtain s1 rs1
    where r1: "report_false_positive fmt n1 init_handler i1 (PStr T) h1 (line_loc L1 K) (PStr R) w1
                 = (s1, Inr True)"
      and inv1: "inv_handler fmt T R K {h1} 0 s1"
      and lk1: "pdict_lookup (false_positives s1) (report_key fmt (PStr T) h1) = Some rs1"
      and ex1: "\<exists>r \<in> set rs1. location r = line_loc L1 K"
    by blast
  from verify_step[OF inv1 lk1 ex1 assms(1)] obtain s1'
    where v1: "verify_false_positive fmt s1 (PStr T) h1 (line_loc L1 K) = (s1', Inr True)"
      and inv1': "inv_handler fmt T R K {h1} 1 s1'"
    by auto
  from report_step[OF inv1' assms(2), of n2 i2 h2 w2] obtain s2 rs2
    where r2: "report_false_positive fmt n2 s1' i2 (PStr T) h2 (line_loc L2 K) (PStr R) w2
                 = (s2, Inr True)"
      and inv2: "inv_handler fmt T R K {h2, h1} 1 s2"
      and lk2: "pdict_lookup (false_positives s2) (report_key fmt (PStr T) h2) = Some rs2"
      and ex2: "\<exists>r \<in> set rs2. location r = line_loc L2 K"
    by blast
  from verify_step[OF inv2 lk2 ex2 assms(2)] obtain s2'
    where v2: "verify_false_positive fmt s2 (PStr T) h2 (line_loc L2 K) = (s2', Inr True)"
      and inv2': "inv_handler fmt T R K {h2, h1} 2 s2'"
    by (auto simp: numeral_2_eq_2)
  have "h' \<notin> {h2, h1}" using assms(4) by auto
  from suppress_step[OF inv2' this assms(5)]
  have sup2: "should_suppress_issue fmt s2' (PStr T) h' loc' default_threshold = Inr False"
    by simp
  from report_step[OF inv2' assms(3), of n3 i3 h3 w3] obtain s3 rs3
    where r3: "report_false_positive fmt n3 s2' i3 (PStr T) h3 (line_loc L3 K) (PStr R) w3
                 = (s3, Inr True)"
      and inv3: "inv_handler fmt T R K {h3, h2, h1} 2 s3"
      and lk3: "pdict_lookup (false_positives s3) (report_key fmt (PStr T) h3) = Some rs3"
      and ex3: "\<exists>r \<in> set rs3. location r = line_loc L3 K"
    by blast
  from verify_step[OF inv3 lk3 ex3 assms(3)] obtain s3'
    where v3: "verify_false_positive fmt s3 (PStr T) h3 (line_loc L3 K) = (s3', Inr True)"
      and inv3': "inv_handler fmt T R K {h3, h2, h1} 3 s3'"
    by (auto simp: numeral_3_eq_3)
  have "h' \<notin> {h3, h2, h1}" using assms(4) by auto
  from suppress_step[OF inv3' this assms(5)]
  have sup3: "should_suppress_issue fmt s3' (PStr T) h' loc' default_threshold = Inr True"
    by simp
  show ?thesis
    unfolding Let_def by (simp add: r1 v1 r2 v2 r3 v3 sup2 sup3)
qed

theorem suppression_threshold_witness:
  "(10::int) \<noteq> 0 \<and> (20::int) \<noteq> 0 \<and> (30::int) \<noteq> 0 \<and> ''u4'' \<notin> {''u1'', ''u2'', ''u3''} \<and>
   py_get (line_loc 7 ''function'') ''type'' PNone = Inr (PStr ''function'') \<and>
   (let r1 = report_false_positive str_text ''t1'' init_handler (PStr ''a'') (PStr ''reentrancy'') ''u1''
               (line_loc 10 ''function'') (PStr ''guarded'') PNone;
        v1 = verify_false_positive str_text (fst r1) (PStr ''reentrancy'') ''u1'' (line_loc 10 ''function'');
        r2 = report_false_positive str_text ''t2'' (fst v1) (PStr ''b'') (PStr ''reentrancy'') ''u2''
               (line_loc 20 ''function'') (PStr ''guarded'') PNone;
        v2 = verify_false_positive str_text (fst r2) (PStr ''reentrancy'') ''u2'' (line_loc 20 ''function'');
        r3 = report_false_positive str_text ''t3'' (fst v2) (PStr ''c'') (PStr ''reentrancy'') ''u3''
               (line_loc 30 ''function'') (PStr ''guarded'') PNone;
        v3 = verify_false_positive str_text (fst r3) (PStr ''reentrancy'') ''u3'' (line_loc 30 ''function'')
    in snd r1 = Inr True \<and> snd v1 = Inr True \<and> snd r2 = Inr True \<and> snd v2 = Inr True \<and>
       should_suppress_issue str_text (fst v2) (PStr ''reentrancy'') ''u4'' (line_loc 7 ''function'')
         default_threshold = Inr False \<and>
       snd r3 = Inr True \<and> snd v3 = Inr True \<and>
       should_suppress_issue str_text (fst v3) (PStr ''reentrancy'') ''u4'' (line_loc 7 ''function'')
         default_threshold = Inr True)"
proof -
  have pre: "(10::int) \<noteq> 0" "(20::int) \<noteq> 0" "(30::int) \<noteq> 0" "''u4'' \<notin> {''u1'', ''u2'', ''u3''}"
    "py_get (line_loc 7 ''function'') ''type'' PNone = Inr (PStr ''function'')"
    by (simp_all add: line_loc_def py_get_def)
  from pre suppression_threshold[OF pre, of str_text "''t1''" "PStr ''a''" "''reentrancy''"
         "''guarded''" PNone "''t2''" "PStr ''b''" PNone "''t3''" "PStr ''c''" PNone]
  show ?thesis by blast
qed

lemma location_matches_exact_only:
  "location_matches (PDict [(PStr ''line'', PInt L)]) (PDict [(PStr ''line'', PInt L')])
     = Inr (L \<noteq> 0 \<and> L' \<noteq> 0 \<and> L = L')"
  by (auto simp: location_matches_def py_get_def rbind_def py_or_def)

lemma issue_suppressed_dict:
  "issue_suppressed fmt self chash issue = Inr b \<Longrightarrow> \<exists>d. issue = PDict d"
  by (cases issue) (auto simp: issue_suppressed_def py_get_def rbind_def)

lemma mark_suppressed_dict:
  "mark_suppressed (PDict d) =
     Inr (PDict (pdict_set (pdict_set d (PStr ''suppressed'') (PBool True))
                   (PStr ''suppression_reason'') (PStr ''Known false positive'')))"
  by (simp add: mark_suppressed_def py_setitem_def rbind_def)

lemma mark_suppressed_marked:
  "issue_suppressed fmt self chash issue = Inr b \<Longrightarrow> mark_suppressed issue = Inr (marked issue)"
  by (auto dest!: issue_suppressed_dict simp: marked_def mark_suppressed_dict)

lemma marked_dict:
  "marked (PDict d) =
     PDict (pdict_set (pdict_set d (PStr ''suppressed'') (PBool True))
              (PStr ''suppression_reason'') (PStr ''Known false positive''))"
  by (simp add: marked_def mark_suppressed_dict)

lemma marked_other: "(\<And>d. issue \<noteq> PDict d) \<Longrightarrow> marked issue = issue"
  by (cases issue)
     (auto simp: marked_def mark_suppressed_def py_setitem_def rbind_def seq_index_def)

lemma py_get_marked:
  assumes "k \<noteq> ''suppressed''" "k \<noteq> ''suppression_reason''"
  shows "py_get (marked issue) k dflt = py_get issue k dflt"
proof (cases "\<exists>d. issue = PDict d")
  case True
  with assms show ?thesis
    by (auto simp: marked_dict py_get_def pdict_lookup_set_str)
next
  case False
  then show ?thesis by (simp add: marked_other)
qed

lemma issue_suppressed_marked:
  "issue_suppressed fmt self chash (marked issue) = issue_suppressed fmt self chash issue"
  by (simp add: issue_suppressed_def py_get_marked)

lemma pdict_set_twice: "pdict_set (pdict_set d (PStr a) v) (PStr a) v = pdict_set d (PStr a) v"
  by (induction d) auto

lemma pdict_set_swap_idem:
  "a \<noteq> b \<Longrightarrow>
   pdict_set (pdict_set (pdict_set d (PStr a) v) (PStr b) w) (PStr a) v
     = pdict_set (pdict_set d (PStr a) v) (PStr b) w"
  by (induction d) (auto simp: pdict_set_twice)

lemma marked_idem: "marked (marked issue) = marked issue"
proof (cases "\<exists>d. issue = PDict d")
  case True
  then show ?thesis
    by (auto simp: marked_dict pdict_set_twice pdict_set_swap_idem)
next
  case False
  then show ?thesis by (simp add: marked_other)
qed

lemma py_get_marked_flags:
  "py_get (marked (PDict d)) ''suppressed'' dflt = Inr (PBool True) \<and>
   py_get (marked (PDict d)) ''suppression_reason'' dflt = Inr (PStr ''Known false positive'')"
  by (simp add: marked_dict py_get_def pdict_lookup_set_str)

lemma filter_loop_char:
  assumes "list_all (\<lambda>a. \<not> isl (issue_suppressed fmt self chash (heap a))) issues"
  shows "filter_loop fmt self chash heap issues acc =
           ((\<lambda>a. if a \<in> set issues \<and> issue_suppressed fmt self chash (heap a) = Inr True
                  then marked (heap a) else heap a),
            Inr (acc @ [a \<leftarrow> issues. issue_suppressed fmt self chash (heap a) = Inr False]))"
  using assms
proof (induction issues arbitrary: heap acc)
  case Nil
  then show ?case by simp
next
  case (Cons a issues)
  from Cons.prems obtain b where b: "issue_suppressed fmt self chash (heap a) = Inr b"
    by (cases "issue_suppressed fmt self chash (heap a)") auto
  show ?case
  proof (cases b)
    case False
    with b Cons.prems Cons.IH[of heap "acc @ [a]"] show ?thesis
      by (auto simp: fun_eq_iff)
  next
    case True
    let ?heap1 = "heap(a := marked (heap a))"
    have same: "issue_suppressed fmt self chash (?heap1 x) = issue_suppressed fmt self chash (heap x)" for x
      by (simp add: issue_suppressed_marked)
    from Cons.prems have ok1: "list_all (\<lambda>a. \<not> isl (issue_suppressed fmt self chash (?heap1 a))) issues"
      by (simp add: same del: fun_upd_apply)
    have "filter_loop fmt self chash heap (a # issues) acc = filter_loop fmt self chash ?heap1 issues acc"
      using b True by (simp add: mark_suppressed_marked[OF b])
    also note Cons.IH[OF ok1, of acc]
    finally show ?thesis
      using b True by (auto simp: same fun_eq_iff marked_idem simp del: fun_upd_apply)
         (auto simp: marked_idem)
  qed
qed

lemma filter_false_positives_char:
  assumes "list_all (\<lambda>a. \<not> isl (issue_suppressed fmt self chash (heap a))) issues"
  shows "filter_false_positives fmt self heap issues chash =
           ((\<lambda>a. if a \<in> set issues \<and> issue_suppressed fmt self chash (heap a) = Inr True
                  then marked (heap a) else heap a),
            Inr [a \<leftarrow> issues. issue_suppressed fmt self chash (heap a) = Inr False])"
  unfolding filter_false_positives_def using filter_loop_char[OF assms, of "[]"] by simp

lemma filter_loop_returns:
  "filter_loop fmt self chash heap issues acc = (heap', Inr res) \<Longrightarrow>
     list_all (\<lambda>a. \<not> isl (issue_suppressed fmt self chash (heap a))) issues"
proof (induction issues arbitrary: heap acc)
  case Nil
  then show ?case by simp
next
  case (Cons a issues)
  show ?case
  proof (cases "issue_suppressed fmt self chash (heap a)")
    case (Inl e)
    with Cons.prems show ?thesis by simp
  next
    case (Inr b)
    show ?thesis
    proof (cases b)
      case False
      with Inr Cons.prems have "filter_loop fmt self chash heap issues (acc @ [a]) = (heap', Inr res)"
        by simp
      from Cons.IH[OF this] Inr show ?thesis by simp
    next
      case True
      let ?heap1 = "heap(a := marked (heap a))"
      from True Inr Cons.prems have "filter_loop fmt self chash ?heap1 issues acc = (heap', Inr res)"
        by (simp add: mark_suppressed_marked[OF Inr])
      from Cons.IH[OF this]
      have "list_all (\<lambda>x. \<not> isl (issue_suppressed fmt self chash (?heap1 x))) issues" .
      moreover have "issue_suppressed fmt self chash (?heap1 x) = issue_suppressed fmt self chash (heap x)" for x
        by (simp add: issue_suppressed_marked)
      ultimately show ?thesis using Inr by (simp del: fun_upd_apply)
    qed
  qed
qed

lemma filter_returns_iff:
  "(\<exists>heap' filtered. filter_false_positives fmt self heap issues chash = (heap', Inr filtered))
     \<longleftrightarrow> list_all (\<lambda>a. \<not> isl (issue_suppressed fmt self chash (heap a))) issues"
  using filter_loop_returns[of fmt self chash heap issues "[]"]
        filter_false_positives_char[of fmt self chash heap issues]
  by (auto simp: filter_false_positives_def)

text \<open>
  C4 (as amended). Whenever \<open>filter_false_positives\<close> returns, the list it returns
  holds, in their order, exactly the issues for which \<open>should_suppress_issue\<close> is
  false, and these are unchanged; an issue for which it is true is flagged as suppressed
  with a reason, in place, and is left out of the returned list.
\<close>

theorem filter_drops_suppressed:
  assumes "filter_false_positives fmt self heap issues chash = (heap', Inr filtered)"
  shows "filtered = [a \<leftarrow> issues. issue_suppressed fmt self chash (heap a) = Inr False] \<and>
         (\<forall>a \<in> set issues.
            if issue_suppressed fmt self chash (heap a) = Inr True
            then py_get (heap' a) ''suppressed'' PNone = Inr (PBool True) \<and>
                 py_get (heap' a) ''suppression_reason'' PNone = Inr (PStr ''Known false positive'')
            else heap' a = heap a)"
proof -
  have ok: "list_all (\<lambda>a. \<not> isl (issue_suppressed fmt self chash (heap a))) issues"
    using assms filter_loop_returns[of fmt self chash heap issues "[]"]
    by (simp add: filter_false_positives_def)
  have flags: "py_get (marked (heap a)) ''suppressed'' PNone = Inr (PBool True) \<and>
        py_get (marked (heap a)) ''suppression_reason'' PNone = Inr (PStr ''Known false positive'')"
    if "issue_suppressed fmt self chash (heap a) = Inr True" for a
    using issue_suppressed_dict[OF that] py_get_marked_flags by auto
  have eq: "heap' = (\<lambda>a. if a \<in> set issues \<and> issue_suppressed fmt self chash (heap a) = Inr True
                          then marked (heap a) else heap a)"
    "filtered = [a \<leftarrow> issues. issue_suppressed fmt self chash (heap a) = Inr False]"
  proof -
    have "(heap', Inr filtered :: pyerr + nat list) =
            ((\<lambda>a. if a \<in> set issues \<and> issue_suppressed fmt self chash (heap a) = Inr True
                   then marked (heap a) else heap a),
             Inr [a \<leftarrow> issues. issue_suppressed fmt self chash (heap a) = Inr False])"
      unfolding assms[symmetric] by (rule filter_false_positives_char[OF ok])
    then show
      "heap' = (\<lambda>a. if a \<in> set issues \<and> issue_suppressed fmt self chash (heap a) = Inr True
                          then marked (heap a) else heap a)"
      "filtered = [a \<leftarrow> issues. issue_suppressed fmt self chash (heap a) = Inr False]"
      by (simp_all only: prod.inject sum.inject)
  qed
  show ?thesis
    unfolding eq using flags by simp
qed

text \<open>
  C10. Whenever \<open>filter_false_positives\<close> returns, the returned list holds exactly the
  addresses of the issues not judged suppressed, and their dictionaries are unchanged;
  every issue judged suppressed is absent from the returned list while the caller's
  dictionary at its address has received the keys \<open>suppressed\<close> (true) and
  \<open>suppression_reason\<close>; no other address of the heap changes.
\<close>

theorem filter_mutates_in_place:
  assumes "filter_false_positives fmt self heap issues chash = (heap', Inr filtered)"
  shows "filtered = [a \<leftarrow> issues. issue_suppressed fmt self chash (heap a) = Inr False] \<and>
         (\<forall>a \<in> set issues. issue_suppressed fmt self chash (heap a) = Inr True \<longrightarrow>
            a \<notin> set filtered \<and> mark_suppressed (heap a) = Inr (heap' a) \<and>
            py_get (heap' a) ''suppressed'' PNone = Inr (PBool True) \<and>
            py_get (heap' a) ''suppression_reason'' PNone = Inr (PStr ''Known false positive'')) \<and>
         (\<forall>a \<in> set filtered. a \<in> set issues \<and> heap' a = heap a) \<and>
         (\<forall>a. a \<notin> set issues \<longrightarrow> heap' a = heap a)"
proof -
  have ok: "list_all (\<lambda>a. \<not> isl (issue_suppressed fmt self chash (heap a))) issues"
    using assms filter_loop_returns[of fmt self chash heap issues "[]"]
    by (simp add: filter_false_positives_def)
  have flags: "py_get (marked (heap a)) ''suppressed'' PNone = Inr (PBool True) \<and>
        py_get (marked (heap a)) ''suppression_reason'' PNone = Inr (PStr ''Known false positive'')"
    if "issue_suppressed fmt self chash (heap a) = Inr True" for a
    using issue_suppressed_dict[OF that] py_get_marked_flags by auto
  have eq: "heap' = (\<lambda>a. if a \<in> set issues \<and> issue_suppressed fmt self chash (heap a) = Inr True
                          then marked (heap a) else heap a)"
    "filtered = [a \<leftarrow> issues. issue_suppressed fmt self chash (heap a) = Inr False]"
  proof -
    have "(heap', Inr filtered :: pyerr + nat list) =
            ((\<lambda>a. if a \<in> set issues \<and> issue_suppressed fmt self chash (heap a) = Inr True
                   then marked (heap a) else heap a),
             Inr [a \<leftarrow> issues. issue_suppressed fmt self chash (heap a) = Inr False])"
      unfolding assms[symmetric] by (rule filter_false_positives_char[OF ok])
    then show
      "heap' = (\<lambda>a. if a \<in> set issues \<and> issue_suppressed fmt self chash (heap a) = Inr True
                          then marked (heap a) else heap a)"
      "filtered = [a \<leftarrow> issues. issue_suppressed fmt self chash (heap a) = Inr False]"
      by (simp_all only: prod.inject sum.inject)
  qed
  show ?thesis
    unfolding eq using flags mark_suppressed_marked by auto
qed

lemmas py_defs = rbind_def py_or_def py_get_def py_contains_def py_getitem_def py_setitem_def
  py_iter_def py_add1_def py_ge_def py_abs_diff_le_def py_truediv_def py_append_def seq_index_def

lemmas handler_defs = report_key_def report_false_positive_def location_matches_def
  is_false_positive_def new_entry_def bump_count_def record_pattern_def update_patterns_def
  update_learning_pattern_def verify_false_positive_def should_suppress_issue_def
  default_threshold_def mark_suppressed_def issue_suppressed_def filter_false_positives_def
  init_handler_def

lemmas demo_defs = demo_report_def demo_handler_def demo_heap_def line_loc_def learned_def
  str_text_def

lemma demo_judged:
  "issue_suppressed str_text demo_handler ''abc'' (demo_heap 0) = Inr True"
  "issue_suppressed str_text demo_handler ''abc'' (demo_heap (Suc 0)) = Inr False"
  by (simp_all add: demo_defs handler_defs py_defs)

lemma demo_filter:
  "filter_false_positives str_text demo_handler demo_heap [0, 1] ''abc'' = (demo_heap_after, Inr [1])"
proof -
  have ok: "list_all (\<lambda>a. \<not> isl (issue_suppressed str_text demo_handler ''abc'' (demo_heap a))) [0, 1]"
    by (simp add: demo_judged)
  have m: "marked (demo_heap 0) = demo_heap_after 0"
    by (simp add: marked_dict demo_heap_def demo_heap_after_def)
  have h: "(if a \<in> set [0, 1] \<and> issue_suppressed str_text demo_handler ''abc'' (demo_heap a) = Inr True
            then marked (demo_heap a) else demo_heap a) = demo_heap_after a" for a
  proof (cases "a = 0")
    case True
    then show ?thesis by (simp add: demo_judged m)
  next
    case False
    then show ?thesis by (auto simp: demo_judged demo_heap_after_def)
  qed
  have l: "[a \<leftarrow> [0, 1]. issue_suppressed str_text demo_handler ''abc'' (demo_heap a) = Inr False] = [1]"
    by (simp add: demo_judged)
  show ?thesis
    unfolding filter_false_positives_char[OF ok] h l ..
qed

theorem filter_drops_suppressed_witness:
  "filter_false_positives str_text demo_handler demo_heap [0, 1] ''abc'' = (demo_heap_after, Inr [1]) \<and>
   [1] = [a \<leftarrow> [0, 1]. issue_suppressed str_text demo_handler ''abc'' (demo_heap a) = Inr False] \<and>
   py_get (demo_heap_after 0) ''suppressed'' PNone = Inr (PBool True) \<and>
   demo_heap_after 1 = demo_heap 1"
  using demo_filter filter_drops_suppressed[OF demo_filter]
  by (simp add: demo_judged)

text \<open>
  C4 as stated fails: the issue at address 0 is a known false positive, and the returned
  list does not hold it.
\<close>

theorem filter_omits_known_false_positive:
  "snd (filter_false_positives str_text demo_handler demo_heap [0] ''abc'') = Inr []"
  by (simp add: filter_false_positives_def demo_judged mark_suppressed_marked[OF demo_judged(1)])

theorem filter_mutates_in_place_witness:
  "filter_false_positives str_text demo_handler demo_heap [0, 1] ''abc'' = (demo_heap_after, Inr [1]) \<and>
   [1] = [a \<leftarrow> [0, 1]. issue_suppressed str_text demo_handler ''abc'' (demo_heap a) = Inr False] \<and>
   0 \<notin> set [1::nat] \<and> mark_suppressed (demo_heap 0) = Inr (demo_heap_after 0) \<and>
   demo_heap_after 1 = demo_heap 1 \<and> demo_heap_after 2 = demo_heap 2"
  using demo_filter filter_mutates_in_place[OF demo_filter]
  by (simp add: demo_judged)

text \<open>
  C6. The specification has a report stored at line 10 matched by a verification at line 12. The
  exact test of \<open>_location_matches\<close> returns first, the test within 5 lines is never
  reached: the call returns false and leaves the handler as it was, the report unverified.
\<close>

theorem verify_within_five_lines_fails:
  "let s1 = fst (report_false_positive fmt now init_handler (PStr ''issue-1'') (PStr ''reentrancy'')
                   ''abc'' (PDict [(PStr ''line'', PInt 10)]) (PStr ''guarded'') PNone)
   in verify_false_positive fmt s1 (PStr ''reentrancy'') ''abc'' (PDict [(PStr ''line'', PInt 12)])
        = (s1, Inr False)"
  by (simp add: Let_def handler_defs py_defs)

subsection \<open>Export and import\<close>

lemma report_of_kwargs_asdict: "report_of_kwargs (asdict r) = Inr r"
  by (cases r) (simp add: report_of_kwargs_def asdict_def field_names_def)

lemma build_reports_asdict: "build_reports (map asdict rs) = Inr rs"
  by (induction rs) (simp_all add: report_of_kwargs_asdict rbind_def)

lemma pdict_set_fresh:
  "list_all (\<lambda>kv. \<not> key_eq (fst kv) k) d \<Longrightarrow> pdict_set d k v = d @ [(k, v)]"
  by (induction d) auto

lemma import_items_exported:
  assumes "keys_distinct d"
      and "list_all (\<lambda>kv. list_all (\<lambda>kv'. \<not> key_eq (fst kv) (fst kv')) d) acc"
  shows "import_items acc (map (\<lambda>(key, reports). (key, PList (map asdict reports))) d)
           = (acc @ d, Inr ())"
  using assms
proof (induction d arbitrary: acc)
  case Nil
  then show ?case by simp
next
  case (Cons kv d)
  obtain k rs where kv: "kv = (k, rs)" by (cases kv)
  from Cons.prems(2) have fresh: "list_all (\<lambda>kv'. \<not> key_eq (fst kv') k) acc"
    by (simp add: kv list_all_iff)
  have step: "pdict_set acc k rs = acc @ [(k, rs)]"
    using fresh by (rule pdict_set_fresh)
  have d1: "keys_distinct d" using Cons.prems(1) by (simp add: kv)
  have d2: "list_all (\<lambda>kv. list_all (\<lambda>kv'. \<not> key_eq (fst kv) (fst kv')) d) (acc @ [(k, rs)])"
    using Cons.prems by (simp add: kv list_all_iff)
  show ?case
    using Cons.IH[OF d1 d2]
    by (simp add: kv py_iter_def rbind_def build_reports_asdict step)
qed

lemma fold_pdict_set_fresh:
  assumes "keys_distinct d"
      and "list_all (\<lambda>kv. list_all (\<lambda>kv'. \<not> key_eq (fst kv) (fst kv')) d) acc"
  shows "fold (\<lambda>kv d. pdict_set d (fst kv) (snd kv)) d acc = acc @ d"
  using assms
proof (induction d arbitrary: acc)
  case Nil
  then show ?case by simp
next
  case (Cons kv d)
  obtain k v where kv: "kv = (k, v)" by (cases kv)
  from Cons.prems(2) have fresh: "list_all (\<lambda>kv'. \<not> key_eq (fst kv') k) acc"
    by (simp add: kv list_all_iff)
  have step: "pdict_set acc k v = acc @ [(k, v)]"
    using fresh by (rule pdict_set_fresh)
  have d1: "keys_distinct d" using Cons.prems(1) by (simp add: kv)
  have d2: "list_all (\<lambda>kv. list_all (\<lambda>kv'. \<not> key_eq (fst kv) (fst kv')) d) (acc @ [(k, v)])"
    using Cons.prems by (simp add: kv list_all_iff)
  show ?case
    using Cons.IH[OF d1 d2] by (simp add: kv step)
qed

lemma dict_of_pairs_distinct: "keys_distinct d \<Longrightarrow> dict_of_pairs d = d"
  unfolding dict_of_pairs_def using fold_pdict_set_fresh[of d "[]"] by simp

lemma json_image_clean: "json_clean v \<Longrightarrow> json_image v = v"
proof (induction v rule: json_image.induct)
  case (1 xs)
  then have "map json_image xs = xs"
    by (simp add: list_all_iff map_idI)
  then show ?case by simp
next
  case (2 d)
  have "map (\<lambda>(k, v). (json_key k, json_image v)) d = d"
  proof (rule map_idI)
    fix kv assume m: "kv \<in> set d"
    obtain k v where kv: "kv = (k, v)" by (cases kv)
    from "2.prems" m kv have c: "(case k of PStr s \<Rightarrow> True | _ \<Rightarrow> False)" "json_clean v"
      by (auto simp: list_all_iff)
    from c(1) have "json_key k = k" by (cases k) auto
    moreover from "2.IH"[OF m[unfolded kv] refl c(2)] have "json_image v = v" .
    ultimately show "(case kv of (k, v) \<Rightarrow> (json_key k, json_image v)) = kv"
      by (simp add: kv)
  qed
  with "2.prems" show ?case by (simp add: dict_of_pairs_distinct)
qed simp_all

lemma keys_distinct_map:
  "keys_distinct (map (\<lambda>(k, v). (k, f v)) d) = keys_distinct d"
proof (induction d)
  case Nil
  then show ?case by simp
next
  case (Cons kv d)
  obtain k v where kv: "kv = (k, v)" by (cases kv)
  have "list_all (\<lambda>kv'. \<not> key_eq k (fst kv')) (map (\<lambda>(k, v). (k, f v)) d)
          = list_all (\<lambda>kv'. \<not> key_eq k (fst kv')) d"
    by (induction d) (simp_all add: case_prod_beta)
  with Cons.IH show ?case by (simp add: kv)
qed

text \<open>
  C8 (as amended). For every handler state whose exported document has only strings as
  dictionary keys, each once in its dictionary, importing the export into a fresh handler
  gives back the same reports under the same keys, with their \<open>verified\<close> fields, and
  the same learning patterns.
\<close>

theorem export_import_roundtrip:
  assumes "json_clean (export_data self now)"
      and "loads (dumps (export_data self now)) = Inr (json_image (export_data self now))"
  shows "import_false_positives loads init_handler (export_false_positives dumps self now)
           = (init_handler\<lparr> false_positives := false_positives self,
                             issue_patterns := issue_patterns self \<rparr>, Inr ())"
proof -
  have kd: "keys_distinct (false_positives self)"
    using assms(1) by (simp add: export_data_def keys_distinct_map)
  have ld: "loads (dumps (export_data self now)) = Inr (export_data self now)"
    using assms(2) json_image_clean[OF assms(1)] by simp
  have items: "import_items [] (map (\<lambda>(key, reports). (key, PList (map asdict reports)))
                                  (false_positives self))
                 = (false_positives self, Inr ())"
    using import_items_exported[OF kd, of "[]"] by simp
  show ?thesis
    unfolding import_false_positives_def export_false_positives_def ld
    by (simp add: export_data_def py_get_def rbind_def py_items_def init_handler_def items)
qed

theorem export_import_roundtrip_witness:
  "json_clean (export_data demo_handler ''2024-01-02T00:00:00'') \<and>
   parsed_as (json_image (export_data demo_handler ''2024-01-02T00:00:00''))
       (written_as ''{}'' (export_data demo_handler ''2024-01-02T00:00:00''))
     = Inr (json_image (export_data demo_handler ''2024-01-02T00:00:00'')) \<and>
   import_false_positives (parsed_as (json_image (export_data demo_handler ''2024-01-02T00:00:00'')))
       init_handler
       (export_false_positives (written_as ''{}'') demo_handler ''2024-01-02T00:00:00'')
     = (init_handler\<lparr> false_positives := false_positives demo_handler,
                       issue_patterns := issue_patterns demo_handler \<rparr>, Inr ())"
proof -
  have pre: "json_clean (export_data demo_handler ''2024-01-02T00:00:00'')"
    "parsed_as (json_image (export_data demo_handler ''2024-01-02T00:00:00''))
       (written_as ''{}'' (export_data demo_handler ''2024-01-02T00:00:00''))
     = Inr (json_image (export_data demo_handler ''2024-01-02T00:00:00''))"
    by (simp_all add: parsed_as_def export_data_def demo_handler_def demo_report_def asdict_def
          line_loc_def learned_def)
  from pre export_import_roundtrip[of demo_handler "''2024-01-02T00:00:00''"
          "parsed_as (json_image (export_data demo_handler ''2024-01-02T00:00:00''))"
          "written_as ''{}''", OF pre]
  show ?thesis by blast
qed

lemma none_handler_reached:
  "verify_false_positive str_text
     (fst (import_false_positives (parsed_as null_doc) init_handler null_text))
     (PStr ''reentrancy'') ''abc'' (line_loc 10 ''function'')
   = (none_handler, Inr True)"
  by (simp add: import_false_positives_def parsed_as_def null_doc_def py_items_def
        report_of_kwargs_def field_names_def handler_defs py_defs line_loc_def str_text_def
        none_handler_def)

lemma none_export_image:
  "json_image (export_data none_handler ''2024-01-02T00:00:00'') =
     PDict [(PStr ''false_positives'',
             PDict [(PStr ''reentrancy:abc'',
                     PList [PDict [(PStr ''issue_id'', PStr ''issue-9''),
                                   (PStr ''issue_type'', PNone),
                                   (PStr ''contract_hash'', PStr ''abc''),
                                   (PStr ''location'', line_loc 10 ''function''),
                                   (PStr ''reason'', PStr ''guarded''),
                                   (PStr ''reported_by'', PNone),
                                   (PStr ''reported_at'', PNone),
                                   (PStr ''verified'', PBool True)]])]),
            (PStr ''learning_patterns'',
             PDict [(PStr ''null'',
                     PDict [(PStr ''false_positive_count'', PInt 1),
                            (PStr ''patterns'',
                             PList [PDict [(PStr ''reason'', PStr ''guarded''),
                                           (PStr ''location_type'', PStr ''function''),
                                           (PStr ''count'', PInt 1)]])])]),
            (PStr ''exported_at'', PStr ''2024-01-02T00:00:00'')]"
  by (simp add: export_data_def none_handler_def asdict_def dict_of_pairs_def line_loc_def)

text \<open>
  C8 as stated fails. A report imported with the issue type \<open>null\<close> and then verified
  leaves a learning pattern under the key \<open>None\<close>; the export writes that key as the
  text \<open>null\<close>, and after the import the type \<open>None\<close> has no learning pattern.
\<close>

theorem export_import_rewrites_none_key:
  "snd (import_false_positives
          (parsed_as (json_image (export_data none_handler ''2024-01-02T00:00:00''))) init_handler
          (export_false_positives (written_as none_text) none_handler ''2024-01-02T00:00:00''))
     = Inr () \<and>
   py_contains PNone (issue_patterns none_handler) = Inr True \<and>
   py_contains PNone
     (issue_patterns (fst (import_false_positives
          (parsed_as (json_image (export_data none_handler ''2024-01-02T00:00:00''))) init_handler
          (export_false_positives (written_as none_text) none_handler ''2024-01-02T00:00:00''))))
     = Inr False"
  by (simp add: import_false_positives_def parsed_as_def none_export_image py_get_def rbind_def
        py_items_def py_iter_def report_of_kwargs_def field_names_def init_handler_def
        py_contains_def)
     (simp add: none_handler_def)

lemma import_items_failure:
  "import_items fps items = (fps', Inl e) \<Longrightarrow>
     \<exists>n < length items. import_items fps (take n items) = (fps', Inr ()) \<and>
        rbind (py_iter (snd (items ! n))) build_reports = Inl e"
proof (induction items arbitrary: fps)
  case Nil
  then show ?case by simp
next
  case (Cons item items)
  obtain key reports_data where item: "item = (key, reports_data)" by (cases item)
  show ?case
  proof (cases "rbind (py_iter reports_data) build_reports")
    case (Inl e')
    with Cons.prems item have "fps' = fps" "e' = e" by simp_all
    with Inl item have "import_items fps (take 0 (item # items)) = (fps', Inr ()) \<and>
        rbind (py_iter (snd ((item # items) ! 0))) build_reports = Inl e" by simp
    then show ?thesis by blast
  next
    case (Inr reports)
    with Cons.prems item have "import_items (pdict_set fps key reports) items = (fps', Inl e)"
      by simp
    from Cons.IH[OF this] obtain n where n: "n < length items"
      "import_items (pdict_set fps key reports) (take n items) = (fps', Inr ())"
      "rbind (py_iter (snd (items ! n))) build_reports = Inl e" by blast
    then have "import_items fps (take (Suc n) (item # items)) = (fps', Inr ()) \<and>
        rbind (py_iter (snd ((item # items) ! Suc n))) build_reports = Inl e"
      using Inr item by simp
    with n(1) show ?thesis by (intro exI[of _ "Suc n"]) simp
  qed
qed

text \<open>
  C7 (as amended). When \<open>import_false_positives\<close> fails the exception reaches the
  caller and the learning patterns and the learning data are as before. The reports are
  as before when the text does not parse or holds no dictionary of groups; otherwise the
  reports hold exactly the groups of the document that come before the first group that
  cannot be built, and the exception is the one that group raises.
\<close>

theorem import_failure_effect:
  assumes "import_false_positives loads self json_data = (self', Inl e)"
  shows "issue_patterns self' = issue_patterns self \<and> learning_data self' = learning_data self \<and>
         (case loads json_data of
            Inl e' \<Rightarrow> self' = self \<and> e' = e
          | Inr data \<Rightarrow>
              (case rbind (py_get data ''false_positives'' (PDict [])) py_items of
                 Inl e' \<Rightarrow> self' = self \<and> e' = e
               | Inr items \<Rightarrow>
                   \<exists>n < length items.
                     import_items (false_positives self) (take n items)
                       = (false_positives self', Inr ()) \<and>
                     rbind (py_iter (snd (items ! n))) build_reports = Inl e))"
proof (cases "loads json_data")
  case (Inl e')
  with assms show ?thesis by (simp add: import_false_positives_def)
next
  case (Inr data)
  show ?thesis
  proof (cases "rbind (py_get data ''false_positives'' (PDict [])) py_items")
    case (Inl e')
    with assms Inr show ?thesis by (simp add: import_false_positives_def)
  next
    case items: (Inr items)
    obtain fps res where imp: "import_items (false_positives self) items = (fps, res)"
      by (cases "import_items (false_positives self) items")
    have dict: "\<exists>d. data = PDict d"
      using items by (cases data) (auto simp: py_get_def rbind_def)
    show ?thesis
    proof (cases res)
      case (Inl e')
      with assms Inr items imp have s: "self' = self\<lparr> false_positives := fps \<rparr>" "e' = e"
        by (simp_all add: import_false_positives_def)
      from import_items_failure[OF imp[unfolded Inl s(2)]] s(1) show ?thesis
        by (simp add: Inr items)
    next
      case r: (Inr u)
      with assms Inr items imp dict show ?thesis
        by (auto simp: import_false_positives_def py_get_def)
    qed
  qed
qed

lemma bad_import:
  "import_false_positives (parsed_as bad_doc) demo_handler bad_text
     = (demo_handler\<lparr> false_positives := [(PStr ''reentrancy:abc'', [])] \<rparr>, Inl TypeError)"
  by (simp add: import_false_positives_def parsed_as_def bad_doc_def py_get_def rbind_def
        py_items_def py_iter_def demo_handler_def report_of_kwargs_def field_names_def)

theorem import_failure_effect_witness:
  "import_false_positives (parsed_as bad_doc) demo_handler bad_text
     = (demo_handler\<lparr> false_positives := [(PStr ''reentrancy:abc'', [])] \<rparr>, Inl TypeError) \<and>
   issue_patterns (demo_handler\<lparr> false_positives := [(PStr ''reentrancy:abc'', [])] \<rparr>)
     = issue_patterns demo_handler \<and>
   learning_data (demo_handler\<lparr> false_positives := [(PStr ''reentrancy:abc'', [])] \<rparr>)
     = learning_data demo_handler"
  using bad_import import_failure_effect[OF bad_import] by simp

text \<open>
  C7 as stated fails: the first group of the document replaces the verified report of
  \<open>demo_handler\<close> before the second group raises.
\<close>

theorem import_failure_not_atomic:
  "snd (import_false_positives (parsed_as bad_doc) demo_handler bad_text) = Inl TypeError \<and>
   false_positives (fst (import_false_positives (parsed_as bad_doc) demo_handler bad_text))
     = [(PStr ''reentrancy:abc'', [])] \<and>
   false_positives demo_handler = [(PStr ''reentrancy:abc'', [demo_report])]"
  by (simp add: bad_import) (simp add: demo_handler_def)

subsection \<open>Merging reports\<close>

lemmas merge_defs = merge_analysis_results_def filter_affected_issues_def merge_lists_def
  list_of_set_def issue_line_def near_change_def

text \<open>
  C1. The specification has \<open>merge_analysis_results\<close> return a report that holds the fresh
  findings. The merged lists are built with \<open>list(set(...))\<close>, and an issue is a
  dictionary, which cannot be hashed: with one fresh finding the call raises
  \<open>TypeError\<close>.
\<close>

theorem merge_raises_on_fresh_finding:
  "merge_analysis_results (PDict []) (PDict [(PStr ''vulnerabilities'', PList [demo_finding])]) no_changes
     = Inl TypeError"
  by (simp add: merge_defs py_defs no_changes_def demo_finding_def)

lemma count_severity_dicts:
  "count_severity vs sev = Inr n \<Longrightarrow> list_all (\<lambda>v. \<exists>d. v = PDict d) vs"
proof (induction vs arbitrary: n)
  case Nil
  then show ?case by simp
next
  case (Cons v vs)
  then show ?case
    by (cases v) (auto simp: py_get_def rbind_def split: sum.splits)
qed

lemma list_of_set_hashable:
  "list_of_set xs = Inr ys \<Longrightarrow> list_all py_hashable ys"
proof -
  have "set (dedup zs) \<subseteq> set zs" for zs
    by (induction zs rule: dedup.induct) auto
  moreover assume "list_of_set xs = Inr ys"
  ultimately show ?thesis
    by (auto simp: list_of_set_def list_all_iff split: if_splits)
qed

lemma rbind_Inr: "rbind m f = Inr y \<longleftrightarrow> (\<exists>x. m = Inr x \<and> f x = Inr y)"
  by (cases m) (simp_all add: rbind_def)

lemma merge_lists_hashable:
  "merge_lists cached new_result key = Inr ys \<Longrightarrow> list_all py_hashable ys"
proof -
  assume a: "merge_lists cached new_result key = Inr ys"
  then obtain fresh where f: "(case fresh of PList zs \<Rightarrow> list_of_set (cached @ zs)
                                | _ \<Rightarrow> Inl TypeError) = Inr ys"
    by (auto simp: merge_lists_def rbind_Inr)
  then show ?thesis
    by (cases fresh) (auto simp: list_of_set_hashable)
qed

lemma dict_not_hashable:
  "list_all (\<lambda>v. \<exists>d. v = PDict d) vs \<Longrightarrow> list_all py_hashable vs \<Longrightarrow> vs = []"
  by (cases vs) auto

text \<open>
  More generally, a call that returns has merged no vulnerability at all: the severity
  counts read every element as a dictionary, the set takes hashable elements only.
\<close>

lemma merge_success_no_vulnerabilities:
  assumes "merge_analysis_results cached_result new_result changeset = Inr merged"
  shows "py_get merged ''vulnerabilities'' PNone = Inr (PList [])"
proof -
  from assms have "\<exists>cached_vulns vulns high.
      merge_lists cached_vulns new_result ''vulnerabilities'' = Inr vulns \<and>
      count_severity vulns ''HIGH'' = Inr high \<and>
      py_get merged ''vulnerabilities'' PNone = Inr (PList vulns)"
    unfolding merge_analysis_results_def rbind_Inr
    by (elim exE conjE) (auto simp: py_get_def)
  then obtain cached_vulns vulns high where
    v: "merge_lists cached_vulns new_result ''vulnerabilities'' = Inr vulns"
    and h: "count_severity vulns ''HIGH'' = Inr high"
    and m: "py_get merged ''vulnerabilities'' PNone = Inr (PList vulns)"
    by blast
  from dict_not_hashable[OF count_severity_dicts[OF h] merge_lists_hashable[OF v]] m
  show ?thesis by simp
qed

end
